theory Spec2Isabelle
  imports Complex_Main "HOL-Library.Char_ord" "HOL-Library.Sublist"
begin

section \<open>Numbers of the source language\<close>

text \<open>
  A number of the source is an IEEE 754 binary64 value, and every arithmetic operation
  returns the binary64 value nearest to its exact result, a tie going to the even
  significand. The finite binary64 values are rationals: \<open>binary64 x\<close> is the one nearest
  to the rational \<open>x\<close>, subnormal below \<open>2 ^ - 1022\<close>. A result of magnitude \<open>2 ^ 1024\<close>
  or more stands for an infinity (\<open>overflows\<close>). The sign of a zero is not kept: no
  comparison of the source sees it.
\<close>

function bit_length :: "int \<Rightarrow> nat" where
  "bit_length n = (if n \<le> 0 then 0 else Suc (bit_length (n div 2)))"
  by auto

termination
  by (relation "measure nat") auto

declare bit_length.simps [simp del]

definition pow2 :: "int \<Rightarrow> rat" where
  "pow2 e = (if 0 \<le> e then 2 ^ nat e else 1 / 2 ^ nat (- e))"

text \<open>The \<open>e\<close> with \<open>2 ^ e \<le> x < 2 ^ (e + 1)\<close>, for a positive \<open>x\<close>.\<close>

definition binary_exponent :: "rat \<Rightarrow> int" where
  "binary_exponent x =
     (case quotient_of x of
        (p, q) \<Rightarrow>
          let e = int (bit_length p) - int (bit_length q)
          in if pow2 e \<le> x then e else e - 1)"

definition round_half_even :: "rat \<Rightarrow> int" where
  "round_half_even x =
     (let f = \<lfloor>x\<rfloor>; d = x - of_int f
      in if d < 1 / 2 then f
         else if 1 / 2 < d then f + 1
         else if even f then f else f + 1)"

definition binary64 :: "rat \<Rightarrow> rat" where
  "binary64 x =
     (if x = 0 then 0
      else let e = max (binary_exponent \<bar>x\<bar>) (- 1022);
               q = pow2 (e - 52)
           in of_int (round_half_even (x / q)) * q)"

definition overflows :: "rat \<Rightarrow> bool" where
  "overflows x \<longleftrightarrow> pow2 1024 \<le> \<bar>binary64 x\<bar>"

text \<open>\<^verbatim>\<open>x * y\<close> and \<^verbatim>\<open>x + y\<close> on finite numbers with a finite result.\<close>

definition js_times :: "rat \<Rightarrow> rat \<Rightarrow> rat" where
  "js_times x y = binary64 (x * y)"

definition js_plus :: "rat \<Rightarrow> rat \<Rightarrow> rat" where
  "js_plus x y = binary64 (x + y)"

text \<open>\<^verbatim>\<open>Math.round\<close>: the nearest integer, a half going up.\<close>

definition math_round :: "rat \<Rightarrow> int" where
  "math_round x = \<lfloor>x + 1 / 2\<rfloor>"

section \<open>Raster operations (image enhancement pipeline)\<close>

text \<open>
  A pixel buffer is the \<^verbatim>\<open>Uint8ClampedArray\<close> of the canvas: four interleaved
  channels (R, G, B, A) per pixel. An entry is a number in 0..255; the model keeps entries
  as natural numbers and clamps on every store, as the typed array does.

  A read past the end of a typed array gives \<^verbatim>\<open>undefined\<close>, which arithmetic turns
  into \<^verbatim>\<open>NaN\<close>; a \<^verbatim>\<open>NaN\<close> stored into the array becomes 0, and a store past the
  end is ignored. Numbers that may be \<^verbatim>\<open>NaN\<close> are options, \<open>None\<close> standing for
  \<^verbatim>\<open>NaN\<close>; \<open>xs[i := v]\<close> already ignores an index out of range.
\<close>

type_synonym buffer = "nat list"

definition rd :: "buffer \<Rightarrow> nat \<Rightarrow> nat option" where
  "rd data i = (if i < length data then Some (data ! i) else None)"

definition store :: "nat option \<Rightarrow> nat" where
  "store v = (case v of None \<Rightarrow> 0 | Some n \<Rightarrow> min n 255)"

definition js_min :: "nat option \<Rightarrow> nat option \<Rightarrow> nat option" where
  "js_min a b = (case a of None \<Rightarrow> None | Some m \<Rightarrow>
                   (case b of None \<Rightarrow> None | Some n \<Rightarrow> Some (min m n)))"

definition js_max :: "nat option \<Rightarrow> nat option \<Rightarrow> nat option" where
  "js_max a b = (case a of None \<Rightarrow> None | Some m \<Rightarrow>
                   (case b of None \<Rightarrow> None | Some n \<Rightarrow> Some (max m n)))"

definition js_add :: "nat option \<Rightarrow> nat option \<Rightarrow> nat option" where
  "js_add a b = (case a of None \<Rightarrow> None | Some m \<Rightarrow>
                   (case b of None \<Rightarrow> None | Some n \<Rightarrow> Some (m + n)))"

text \<open>
  The two nested loops \<^verbatim>\<open>for (y = m; y < height - m; y++) for (x = m; x < width - m; x++)\<close>
  visit the positions of \<open>interior m width height\<close> in this order (row by row). With
  \<open>height < m\<close> the bound of the source is negative and the loop body never runs; the
  truncating subtraction on \<open>nat\<close> gives the same empty range.
\<close>

definition interior :: "nat \<Rightarrow> nat \<Rightarrow> nat \<Rightarrow> (nat \<times> nat) list" where
  "interior m width height = List.product [m..<height - m] [m..<width - m]"

text \<open>
  The window loops \<^verbatim>\<open>for (ky = -m; ky <= m; ky++) for (kx = -m; kx <= m; kx++)\<close>: the
  offsets are shifted by \<open>m\<close> to stay in \<open>nat\<close>, so \<open>ky\<close> here is the source's
  \<^verbatim>\<open>ky + m\<close>, and \<open>nidx\<close> is the source's \<^verbatim>\<open>((y + ky) * width + (x + kx)) * 4\<close>.
  Every caller has \<open>m \<le> y\<close> and \<open>m \<le> x\<close>, so no subtraction truncates.
\<close>

definition window :: "nat \<Rightarrow> (nat \<times> nat) list" where
  "window m = List.product [0..<2 * m + 1] [0..<2 * m + 1]"

definition nidx :: "nat \<Rightarrow> nat \<Rightarrow> nat \<Rightarrow> nat \<Rightarrow> nat \<Rightarrow> nat \<Rightarrow> nat" where
  "nidx m width y x ky kx = ((y + ky - m) * width + (x + kx - m)) * 4"

definition pidx :: "nat \<Rightarrow> nat \<times> nat \<Rightarrow> nat" where
  "pidx width p = (case p of (y, x) \<Rightarrow> (y * width + x) * 4)"

definition put_px :: "nat \<Rightarrow> nat \<Rightarrow> nat \<Rightarrow> nat \<Rightarrow> nat \<Rightarrow> buffer \<Rightarrow> buffer" where
  "put_px idx r g b a out = out[idx := r, idx + 1 := g, idx + 2 := b, idx + 3 := a]"

subsection \<open>Erosion and dilation\<close>

definition minValue :: "buffer \<Rightarrow> nat \<Rightarrow> nat \<times> nat \<Rightarrow> nat option" where
  "minValue data width p =
     (case p of (y, x) \<Rightarrow>
        fold (\<lambda>(ky, kx) acc. js_min acc (rd data (nidx 1 width y x ky kx)))
          (window 1) (Some 255))"

definition applyErosion :: "buffer \<Rightarrow> nat \<Rightarrow> nat \<Rightarrow> buffer" where
  "applyErosion data width height =
     fold (\<lambda>p. put_px (pidx width p)
                 (store (minValue data width p)) (store (minValue data width p))
                 (store (minValue data width p)) (store (rd data (pidx width p + 3))))
       (interior 1 width height) (replicate (length data) 0)"

definition maxValue :: "buffer \<Rightarrow> nat \<Rightarrow> nat \<times> nat \<Rightarrow> nat option" where
  "maxValue data width p =
     (case p of (y, x) \<Rightarrow>
        fold (\<lambda>(ky, kx) acc. js_max acc (rd data (nidx 1 width y x ky kx)))
          (window 1) (Some 0))"

definition applyDilation :: "buffer \<Rightarrow> nat \<Rightarrow> nat \<Rightarrow> buffer" where
  "applyDilation data width height =
     fold (\<lambda>p. put_px (pidx width p)
                 (store (maxValue data width p)) (store (maxValue data width p))
                 (store (maxValue data width p)) (store (rd data (pidx width p + 3))))
       (interior 1 width height) (replicate (length data) 0)"

text \<open>
  \<^verbatim>\<open>applyMorphologicalCleaning\<close> copies its input into a fresh buffer and opens it:
  erosion, then dilation.
\<close>

definition applyMorphologicalCleaning :: "buffer \<Rightarrow> nat \<Rightarrow> nat \<Rightarrow> buffer" where
  "applyMorphologicalCleaning data width height =
     (let output = data;
          eroded = applyErosion output width height;
          opened = applyDilation eroded width height
      in opened)"

subsection \<open>Sharpening\<close>

definition kernel :: "int list" where
  "kernel = [-1, -1, -1, -1, 9, -1, -1, -1, -1]"

definition js_add_int :: "int option \<Rightarrow> int option \<Rightarrow> int option" where
  "js_add_int a b = (case a of None \<Rightarrow> None | Some m \<Rightarrow>
                       (case b of None \<Rightarrow> None | Some n \<Rightarrow> Some (m + n)))"

text \<open>
  The accumulators \<^verbatim>\<open>r\<close>, \<^verbatim>\<open>g\<close>, \<^verbatim>\<open>b\<close> of the source, one per colour channel
  \<open>c\<close> (0, 1, 2): the weighted sum of the channel over the 3 by 3 neighbourhood.
\<close>

definition convolve :: "buffer \<Rightarrow> nat \<Rightarrow> nat \<times> nat \<Rightarrow> nat \<Rightarrow> int option" where
  "convolve data width p c =
     (case p of (y, x) \<Rightarrow>
        fold (\<lambda>(ky, kx) acc.
                js_add_int acc
                  (map_option (\<lambda>v. int v * kernel ! (ky * 3 + kx))
                     (rd data (nidx 1 width y x ky kx + c))))
          (window 1) (Some 0))"

text \<open>\<^verbatim>\<open>Math.max(0, Math.min(255, r))\<close>, stored into the typed array.\<close>

definition clamp_store :: "int option \<Rightarrow> nat" where
  "clamp_store v = (case v of None \<Rightarrow> 0 | Some r \<Rightarrow> nat (max 0 (min 255 r)))"

definition applyDocumentSharpening :: "buffer \<Rightarrow> nat \<Rightarrow> nat \<Rightarrow> buffer" where
  "applyDocumentSharpening data width height =
     fold (\<lambda>p. put_px (pidx width p)
                 (clamp_store (convolve data width p 0)) (clamp_store (convolve data width p 1))
                 (clamp_store (convolve data width p 2)) (store (rd data (pidx width p + 3))))
       (interior 1 width height) (replicate (length data) 0)"

subsection \<open>Adaptive thresholding\<close>

text \<open>
  \<^verbatim>\<open>Math.round(0.299 * r + 0.587 * g + 0.114 * b)\<close>: the three weights are the binary64
  values nearest to the decimals written, each product and each sum is rounded to
  binary64, from left to right, and the result is rounded to an integer.
\<close>

definition luma :: "nat \<Rightarrow> nat \<Rightarrow> nat \<Rightarrow> nat" where
  "luma r g b =
     nat (math_round
            (js_plus (js_plus (js_times (binary64 (299 / 1000)) (of_nat r))
                              (js_times (binary64 (587 / 1000)) (of_nat g)))
                     (js_times (binary64 (114 / 1000)) (of_nat b))))"

definition gray_at :: "buffer \<Rightarrow> nat \<Rightarrow> nat" where
  "gray_at data i =
     (case (rd data i, rd data (i + 1), rd data (i + 2)) of
        (Some r, Some g, Some b) \<Rightarrow> min (luma r g b) 255
      | _ \<Rightarrow> 0)"

text \<open>The first loop, \<^verbatim>\<open>for (i = 0; i < data.length; i += 4)\<close>.\<close>

definition grayscale :: "buffer \<Rightarrow> buffer" where
  "grayscale data =
     fold (\<lambda>i. put_px i (gray_at data i) (gray_at data i) (gray_at data i)
                  (store (rd data (i + 3))))
       (map (\<lambda>k. 4 * k) [0..<(length data + 3) div 4]) (replicate (length data) 0)"

text \<open>
  The second loop works in place on \<^verbatim>\<open>output\<close>: the window sum of a pixel reads the
  buffer as the pixels before it in the loop order have left it.
\<close>

definition localSum :: "buffer \<Rightarrow> nat \<Rightarrow> nat \<times> nat \<Rightarrow> nat option" where
  "localSum out width p =
     (case p of (y, x) \<Rightarrow>
        fold (\<lambda>(wy, wx) s. js_add s (rd out (nidx 7 width y x wy wx))) (window 7) (Some 0))"

text \<open>
  \<^verbatim>\<open>grayValue > localSum / count - 10 ? 255 : 0\<close> with \<^verbatim>\<open>count\<close> = 225; a comparison
  with \<^verbatim>\<open>NaN\<close> is false.
\<close>

definition binaryValue :: "nat option \<Rightarrow> nat option \<Rightarrow> nat" where
  "binaryValue grayValue lsum =
     (case (grayValue, lsum) of
        (Some g, Some s) \<Rightarrow> if (of_nat g :: rat) > of_nat s / 225 - 10 then 255 else 0
      | _ \<Rightarrow> 0)"

definition threshold_px :: "nat \<Rightarrow> nat \<times> nat \<Rightarrow> buffer \<Rightarrow> buffer" where
  "threshold_px width p out =
     (let idx = pidx width p;
          v = binaryValue (rd out idx) (localSum out width p)
      in out[idx := v, idx + 1 := v, idx + 2 := v])"

definition applyAdaptiveThreshold :: "buffer \<Rightarrow> nat \<Rightarrow> nat \<Rightarrow> buffer" where
  "applyAdaptiveThreshold data width height =
     fold (threshold_px width) (interior 7 width height) (grayscale data)"

subsection \<open>Test images and auxiliaries of the proofs\<close>

text \<open>
  \<open>uniform w h g\<close> is the opaque image of width \<open>w\<close> and height \<open>h\<close> whose pixels
  all have the grey level \<open>g\<close>; \<open>speck\<close> is the 5 by 5 black image with one white
  pixel in the middle. \<open>put3\<close> is the three stores of the thresholding loop, and
  \<open>paint\<close> sets the colour channels of a list of pixels to one value.
\<close>

definition uniform :: "nat \<Rightarrow> nat \<Rightarrow> nat \<Rightarrow> buffer" where
  "uniform w h g = concat (replicate (w * h) [g, g, g, 255])"

definition put3 :: "nat \<Rightarrow> nat \<Rightarrow> buffer \<Rightarrow> buffer" where
  "put3 idx v out = out[idx := v, idx + 1 := v, idx + 2 := v]"

definition paint :: "nat \<Rightarrow> nat \<Rightarrow> (nat \<times> nat) list \<Rightarrow> buffer \<Rightarrow> buffer" where
  "paint w v ps out = fold (\<lambda>p. put3 (pidx w p) v) ps out"

definition near :: "nat \<times> nat \<Rightarrow> nat \<times> nat \<Rightarrow> bool" where
  "near p q \<longleftrightarrow> fst p \<le> fst q + 7 \<and> fst q \<le> fst p + 7 \<and> snd p \<le> snd q + 7 \<and> snd q \<le> snd p + 7"

definition speck :: buffer where
  "speck = concat (replicate 12 [0, 0, 0, 255]) @ [255, 255, 255, 255]
           @ concat (replicate 12 [0, 0, 0, 255])"

section \<open>Strings and regular expressions of the host language\<close>

text \<open>
  A string is a list of code units. The model's alphabet is Latin-1 (code units 0 to
  255, the characters of \<^typ>\<open>char\<close>); recognised text with code units beyond it is
  outside the model.
\<close>

subsection \<open>Character classes\<close>

definition is_digit :: "char \<Rightarrow> bool" where
  "is_digit c \<longleftrightarrow> CHR ''0'' \<le> c \<and> c \<le> CHR ''9''"

definition is_upper :: "char \<Rightarrow> bool" where
  "is_upper c \<longleftrightarrow> CHR ''A'' \<le> c \<and> c \<le> CHR ''Z''"

definition is_lower :: "char \<Rightarrow> bool" where
  "is_lower c \<longleftrightarrow> CHR ''a'' \<le> c \<and> c \<le> CHR ''z''"

definition is_alpha :: "char \<Rightarrow> bool" where
  "is_alpha c \<longleftrightarrow> is_upper c \<or> is_lower c"

text \<open>\<^verbatim>\<open>\w\<close>: letters, digits and the underscore.\<close>

definition is_word :: "char \<Rightarrow> bool" where
  "is_word c \<longleftrightarrow> is_alpha c \<or> is_digit c \<or> c = CHR ''_''"

text \<open>
  \<^verbatim>\<open>\s\<close>, and the characters \<^verbatim>\<open>trim\<close> strips: tab, line feed, vertical tab, form
  feed, carriage return, space and the no-break space (the members below 256).
\<close>

definition is_space :: "char \<Rightarrow> bool" where
  "is_space c \<longleftrightarrow> (CHR 0x09 \<le> c \<and> c \<le> CHR 0x0D) \<or> c = CHR 0x20 \<or> c = CHR 0xA0"

text \<open>The dot: any character but a line terminator.\<close>

definition is_dot :: "char \<Rightarrow> bool" where
  "is_dot c \<longleftrightarrow> c \<noteq> CHR 0x0A \<and> c \<noteq> CHR 0x0D"

subsection \<open>Case conversion\<close>

text \<open>
  In Latin-1 a capital letter and its small letter differ in bit 5 (the value 32).
  \<^verbatim>\<open>toLowerCase\<close> maps \<^verbatim>\<open>A-Z\<close> and the capitals 0xC0 to 0xDE (but the
  multiplication sign 0xD7) to their small letters.
\<close>

definition set_bit5 :: "bool \<Rightarrow> char \<Rightarrow> char" where
  "set_bit5 b c =
     Char (digit0 c) (digit1 c) (digit2 c) (digit3 c) (digit4 c) b (digit6 c) (digit7 c)"

definition lower_char :: "char \<Rightarrow> char" where
  "lower_char c =
     (if is_upper c \<or> (CHR 0xC0 \<le> c \<and> c \<le> CHR 0xDE \<and> c \<noteq> CHR 0xD7)
      then set_bit5 True c else c)"

definition toLowerCase :: "string \<Rightarrow> string" where
  "toLowerCase s = map lower_char s"

text \<open>
  \<^verbatim>\<open>toUpperCase\<close> maps \<^verbatim>\<open>a-z\<close> and the small letters 0xE0 to 0xFE (but the division
  sign 0xF7) to their capitals, and the sharp s (0xDF) to \<^verbatim>\<open>SS\<close>. The capitals of the
  micro sign (0xB5) and of y with diaeresis (0xFF) lie outside Latin-1; the model leaves
  the two characters as they are. Every caller only looks for ASCII text in the result,
  which the two capitals are not.
\<close>

definition upper_char :: "char \<Rightarrow> string" where
  "upper_char c =
     (if c = CHR 0xDF then ''SS''
      else if is_lower c \<or> (CHR 0xE0 \<le> c \<and> c \<le> CHR 0xFE \<and> c \<noteq> CHR 0xF7)
      then [set_bit5 False c] else [c])"

definition toUpperCase :: "string \<Rightarrow> string" where
  "toUpperCase s = concat (map upper_char s)"

text \<open>
  Matching with the \<^verbatim>\<open>i\<close> flag compares canonical forms (the capital, where it is a
  single code unit). For a class \<open>P\<close> whose letters are ASCII letters, a character
  matches when its ASCII capital or its ASCII small letter is in the class.
\<close>

definition ascii_upper :: "char \<Rightarrow> char" where
  "ascii_upper c = (if is_lower c then set_bit5 False c else c)"

definition ascii_lower :: "char \<Rightarrow> char" where
  "ascii_lower c = (if is_upper c then set_bit5 True c else c)"

definition icase :: "(char \<Rightarrow> bool) \<Rightarrow> char \<Rightarrow> bool" where
  "icase P c \<longleftrightarrow> P (ascii_upper c) \<or> P (ascii_lower c)"

subsection \<open>String methods\<close>

definition trim :: "string \<Rightarrow> string" where
  "trim s = rev (dropWhile is_space (rev (dropWhile is_space s)))"

fun starts_with :: "string \<Rightarrow> string \<Rightarrow> bool" where
  "starts_with s [] = True"
| "starts_with [] (c # cs) = False"
| "starts_with (x # xs) (c # cs) = (x = c \<and> starts_with xs cs)"

fun includes_str :: "string \<Rightarrow> string \<Rightarrow> bool" where
  "includes_str [] t = (t = [])"
| "includes_str (x # xs) t = (starts_with (x # xs) t \<or> includes_str xs t)"

text \<open>
  \<^verbatim>\<open>s.split(c)\<close> for a one-character separator: the pieces between the separators;
  the empty string gives one empty piece.
\<close>

fun split :: "char \<Rightarrow> string \<Rightarrow> string list" where
  "split sep [] = [[]]"
| "split sep (c # cs) =
     (if c = sep then [] # split sep cs
      else (case split sep cs of p # ps \<Rightarrow> (c # p) # ps | [] \<Rightarrow> [[c]]))"

fun join :: "string \<Rightarrow> string list \<Rightarrow> string" where
  "join sep [] = []"
| "join sep [x] = x"
| "join sep (x # y # ys) = x @ sep @ join sep (y # ys)"

text \<open>\<^verbatim>\<open>s.replace(t, r)\<close> with a string pattern: the first occurrence only.\<close>

fun replace_str :: "string \<Rightarrow> string \<Rightarrow> string \<Rightarrow> string" where
  "replace_str t r [] = (if t = [] then r else [])"
| "replace_str t r (c # cs) =
     (if starts_with (c # cs) t then r @ drop (length t) (c # cs)
      else c # replace_str t r cs)"

subsection \<open>Regular expressions\<close>

text \<open>
  The patterns of the source use characters and classes, sequence, alternation, greedy
  repetition, capturing groups, \<^verbatim>\<open>\b\<close>, \<^verbatim>\<open>^\<close> and \<^verbatim>\<open>$\<close>. A class is the
  predicate of its members.
\<close>

datatype re =
    Atom "char \<Rightarrow> bool"
  | Eps
  | Seq re re
  | Alt re re
  | Star re
  | Group nat re
  | WordB
  | Bol
  | Eol

text \<open>
  The state of a match: the character before the current position (\<open>None\<close> at the start
  of the input), the input from the current position on, and the captures so far.
\<close>

datatype mstate = MState (prev: "char option") (rest: string) (groups: "nat \<Rightarrow> string option")

definition word_before :: "mstate \<Rightarrow> bool" where
  "word_before st = (case prev st of None \<Rightarrow> False | Some c \<Rightarrow> is_word c)"

definition word_after :: "mstate \<Rightarrow> bool" where
  "word_after st = (case rest st of [] \<Rightarrow> False | c # cs \<Rightarrow> is_word c)"

text \<open>
  The backtracking matcher, in the continuation-passing style of the language
  definition: \<open>rmatch r st k\<close> matches \<open>r\<close> at the state \<open>st\<close> and hands each way of
  matching, in order of priority, to the continuation \<open>k\<close> until one succeeds. An
  alternation tries its left side first; a repetition is greedy, and an iteration
  that consumes nothing is rejected. (A repetition also resets the captures of the
  groups inside it at every iteration; in the patterns of the source the value of a
  group inside a repetition is never used.)
\<close>

function rmatch :: "re \<Rightarrow> mstate \<Rightarrow> (mstate \<Rightarrow> mstate option) \<Rightarrow> mstate option" where
  "rmatch (Atom P) st k =
     (case rest st of
        [] \<Rightarrow> None
      | c # cs \<Rightarrow> if P c then k (MState (Some c) cs (groups st)) else None)"
| "rmatch Eps st k = k st"
| "rmatch (Seq r1 r2) st k = rmatch r1 st (\<lambda>st'. rmatch r2 st' k)"
| "rmatch (Alt r1 r2) st k =
     (case rmatch r1 st k of Some res \<Rightarrow> Some res | None \<Rightarrow> rmatch r2 st k)"
| "rmatch (Star r) st k =
     (case rmatch r st
             (\<lambda>st'. if length (rest st') < length (rest st) then rmatch (Star r) st' k else None)
      of Some res \<Rightarrow> Some res | None \<Rightarrow> k st)"
| "rmatch (Group n r) st k =
     rmatch r st
       (\<lambda>st'. k (MState (prev st') (rest st')
                   ((groups st')(n := Some (take (length (rest st) - length (rest st')) (rest st))))))"
| "rmatch WordB st k = (if word_before st \<noteq> word_after st then k st else None)"
| "rmatch Bol st k = (if prev st = None then k st else None)"
| "rmatch Eol st k = (if rest st = [] then k st else None)"
  by pat_completeness auto
termination
  by (relation "measures [\<lambda>(r, st, k). size r, \<lambda>(r, st, k). length (rest st)]") auto

text \<open>Derived forms: \<^verbatim>\<open>r?\<close>, \<^verbatim>\<open>r+\<close>, \<^verbatim>\<open>r{n}\<close>, \<^verbatim>\<open>r{0,n}\<close>, \<^verbatim>\<open>r{m,n}\<close>, \<^verbatim>\<open>r{m,}\<close>.\<close>

definition Opt :: "re \<Rightarrow> re" where
  "Opt r = Alt r Eps"

definition Plus :: "re \<Rightarrow> re" where
  "Plus r = Seq r (Star r)"

fun Rep :: "nat \<Rightarrow> re \<Rightarrow> re" where
  "Rep 0 r = Eps"
| "Rep (Suc n) r = Seq r (Rep n r)"

fun UpTo :: "nat \<Rightarrow> re \<Rightarrow> re" where
  "UpTo 0 r = Eps"
| "UpTo (Suc n) r = Opt (Seq r (UpTo n r))"

definition Range :: "nat \<Rightarrow> nat \<Rightarrow> re \<Rightarrow> re" where
  "Range m n r = Seq (Rep m r) (UpTo (n - m) r)"

definition AtLeast :: "nat \<Rightarrow> re \<Rightarrow> re" where
  "AtLeast m r = Seq (Rep m r) (Star r)"

text \<open>A sequence of patterns, a choice of patterns, one character, a literal text.\<close>

fun seqs :: "re list \<Rightarrow> re" where
  "seqs [] = Eps"
| "seqs [r] = r"
| "seqs (r # rs) = Seq r (seqs rs)"

fun alts :: "re list \<Rightarrow> re" where
  "alts [] = Eps"
| "alts [r] = r"
| "alts (r # rs) = Alt r (alts rs)"

definition ch :: "char \<Rightarrow> re" where
  "ch c = Atom (\<lambda>x. x = c)"

definition lit :: "string \<Rightarrow> re" where
  "lit s = seqs (map ch s)"

text \<open>The same under the \<^verbatim>\<open>i\<close> flag.\<close>

definition ich :: "char \<Rightarrow> re" where
  "ich c = Atom (icase (\<lambda>x. x = c))"

definition ilit :: "string \<Rightarrow> re" where
  "ilit s = seqs (map ich s)"

text \<open>The classes \<^verbatim>\<open>\d\<close>, \<^verbatim>\<open>\s\<close>, \<^verbatim>\<open>\w\<close>, \<^verbatim>\<open>[A-Z]\<close>, \<^verbatim>\<open>[a-z]\<close>.\<close>

definition dg :: re where "dg = Atom is_digit"
definition sp :: re where "sp = Atom is_space"
definition wd :: re where "wd = Atom is_word"
definition up :: re where "up = Atom is_upper"
definition lw :: re where "lw = Atom is_lower"

text \<open>
  A successful search: the text before the match, the matched text (\<^verbatim>\<open>match[0]\<close>), the
  captures, and the text after the match.
\<close>

datatype found = Found (before: string) (matched: string) (caps: "nat \<Rightarrow> string option")
  (after: string)

text \<open>
  \<^verbatim>\<open>match[n]\<close>. Every group the source reads stands outside every optional part and
  alternative of its pattern, so a successful match has set it.
\<close>

definition cap :: "found \<Rightarrow> nat \<Rightarrow> string" where
  "cap m n = (case caps m n of None \<Rightarrow> [] | Some s \<Rightarrow> s)"

text \<open>
  The search tries the start positions from left to right; \<open>p\<close> is the character before
  the text \<open>s\<close> still to be searched.
\<close>

fun re_find :: "re \<Rightarrow> char option \<Rightarrow> string \<Rightarrow> found option" where
  "re_find r p [] =
     (case rmatch r (MState p [] (\<lambda>n. None)) Some of
        None \<Rightarrow> None
      | Some st \<Rightarrow> Some (Found [] [] (groups st) []))"
| "re_find r p (c # cs) =
     (case rmatch r (MState p (c # cs) (\<lambda>n. None)) Some of
        Some st \<Rightarrow>
          Some (Found [] (take (length (c # cs) - length (rest st)) (c # cs)) (groups st) (rest st))
      | None \<Rightarrow>
          (case re_find r (Some c) cs of
             None \<Rightarrow> None
           | Some m \<Rightarrow> Some (Found (c # before m) (matched m) (caps m) (after m))))"

text \<open>\<^verbatim>\<open>s.match(r)\<close> for a pattern without the \<^verbatim>\<open>g\<close> flag, and \<^verbatim>\<open>r.test(s)\<close>.\<close>

definition re_exec :: "re \<Rightarrow> string \<Rightarrow> found option" where
  "re_exec r s = re_find r None s"

definition re_test :: "re \<Rightarrow> string \<Rightarrow> bool" where
  "re_test r s \<longleftrightarrow> re_exec r s \<noteq> None"

text \<open>\<^verbatim>\<open>s.replace(r, f)\<close> without the \<^verbatim>\<open>g\<close> flag: the first match only.\<close>

definition re_replace :: "re \<Rightarrow> (found \<Rightarrow> string) \<Rightarrow> string \<Rightarrow> string" where
  "re_replace r f s =
     (case re_exec r s of None \<Rightarrow> s | Some m \<Rightarrow> before m @ f m @ after m)"

text \<open>
  A match ends where a suffix of the searched text starts, so a successful search
  splits the text in three. The loops of the global methods below terminate by it.
\<close>

lemma rmatch_suffix:
  "rmatch r st k = Some res \<Longrightarrow> \<exists>st'. suffix (rest st') (rest st) \<and> k st' = Some res"
proof (induction r st k arbitrary: res rule: rmatch.induct)
  case (1 P st k)
  then show ?case
    by (auto split: list.splits if_splits intro!: exI[of _ "MState (Some (hd (rest st))) (tl (rest st)) (groups st)"] simp: suffix_def)
next
  case (2 st k)
  then show ?case by auto
next
  case (3 r1 r2 st k)
  from "3.prems" have "rmatch r1 st (\<lambda>st'. rmatch r2 st' k) = Some res" by simp
  from "3.IH"(2)[OF this] obtain st1 where s1: "suffix (rest st1) (rest st)"
    and m1: "rmatch r2 st1 k = Some res" by blast
  from "3.IH"(1)[OF m1] obtain st2 where "suffix (rest st2) (rest st1)" "k st2 = Some res" by blast
  with s1 show ?case by (meson suffix_order.trans)
next
  case (4 r1 r2 st k)
  then show ?case by (auto split: option.splits)
next
  case (5 r st k)
  let ?K = "\<lambda>st'. if length (rest st') < length (rest st) then rmatch (Star r) st' k else None"
  show ?case
  proof (cases "rmatch r st ?K")
    case None
    with "5.prems" show ?thesis by auto
  next
    case (Some a)
    with "5.prems" have a: "rmatch r st ?K = Some res" by simp
    from "5.IH"(2)[OF a] obtain st1 where s1: "suffix (rest st1) (rest st)"
      and k1: "?K st1 = Some res" by blast
    then have l: "length (rest st1) < length (rest st)" and m: "rmatch (Star r) st1 k = Some res"
      by (auto split: if_splits)
    from "5.IH"(1)[OF l m] obtain st2 where "suffix (rest st2) (rest st1)" "k st2 = Some res" by blast
    with s1 show ?thesis by (meson suffix_order.trans)
  qed
next
  case (6 n r st k)
  from "6.IH"[OF "6.prems"[simplified]] obtain st' where s: "suffix (rest st') (rest st)"
    and k: "k (MState (prev st') (rest st')
              ((groups st')(n := Some (take (length (rest st) - length (rest st')) (rest st)))))
            = Some res" by blast
  show ?case
    by (rule exI[of _ "MState (prev st') (rest st')
              ((groups st')(n := Some (take (length (rest st) - length (rest st')) (rest st))))"])
      (use s k in simp)
next
  case (7 st k)
  then show ?case by (auto split: if_splits)
next
  case (8 st k)
  then show ?case by (auto split: if_splits)
next
  case (9 st k)
  then show ?case by (auto split: if_splits)
qed

lemma re_find_split:
  "re_find r p s = Some m \<Longrightarrow> s = before m @ matched m @ after m"
proof (induction s arbitrary: p m)
  case Nil
  then show ?case by (auto split: option.splits)
next
  case (Cons c cs)
  show ?case
  proof (cases "rmatch r (MState p (c # cs) (\<lambda>n. None)) Some")
    case None
    with Cons.prems obtain m' where m': "re_find r (Some c) cs = Some m'"
      and m: "m = Found (c # before m') (matched m') (caps m') (after m')"
      by (auto split: option.splits)
    from Cons.IH[OF m'] m show ?thesis by simp
  next
    case (Some st)
    from rmatch_suffix[OF Some] have "suffix (rest st) (c # cs)" by auto
    then obtain zs where zs: "c # cs = zs @ rest st" by (auto simp: suffix_def)
    then have t: "take (length (c # cs) - length (rest st)) (c # cs) = zs"
      by (metis add_diff_cancel_right' append_eq_conv_conj length_append)
    from Some Cons.prems
    have "m = Found [] (take (length (c # cs) - length (rest st)) (c # cs)) (groups st) (rest st)"
      by simp
    then show ?thesis unfolding t using zs by simp
  qed
qed

text \<open>
  \<^verbatim>\<open>s.replace(r, f)\<close> with the \<^verbatim>\<open>g\<close> flag: every match, from left to right. After an
  empty match the search resumes one character further on.
\<close>

function re_replace_from :: "re \<Rightarrow> (found \<Rightarrow> string) \<Rightarrow> char option \<Rightarrow> string \<Rightarrow> string" where
  "re_replace_from r f p s =
     (case re_find r p s of
        None \<Rightarrow> s
      | Some m \<Rightarrow>
          before m @ f m @
          (if matched m = [] then
             (case after m of [] \<Rightarrow> [] | c # cs \<Rightarrow> c # re_replace_from r f (Some c) cs)
           else re_replace_from r f (Some (last (matched m))) (after m)))"
  by pat_completeness auto
termination
proof (relation "measure (\<lambda>(r, f, p, s). length s)")
  show "wf (measure (\<lambda>(r, f, p, s). length s))" by simp
next
  fix r f p s m c cs
  assume "re_find r p s = Some m" "after m = c # cs"
  then have "s = before m @ matched m @ c # cs" using re_find_split by metis
  then show "((r, f, Some c, cs), (r, f, p, s)) \<in> measure (\<lambda>(r, f, p, s). length s)" by simp
next
  fix r :: re and f :: "found \<Rightarrow> string" and p s m
  assume "re_find r p s = Some m" "matched m \<noteq> []"
  then have "s = before m @ matched m @ after m" "length (matched m) > 0"
    using re_find_split by auto
  then have "length (after m) < length s" by (metis add.commute length_append less_add_same_cancel2 trans_less_add2)
  then show "((r, f, Some (last (matched m)), after m), (r, f, p, s))
               \<in> measure (\<lambda>(r, f, p, s). length s)" by simp
qed

definition re_replace_all :: "re \<Rightarrow> (found \<Rightarrow> string) \<Rightarrow> string \<Rightarrow> string" where
  "re_replace_all r f s = re_replace_from r f None s"

text \<open>\<^verbatim>\<open>s.match(r)\<close> with the \<^verbatim>\<open>g\<close> flag: the matched texts; no match gives \<^verbatim>\<open>null\<close>, here the empty list.\<close>

function re_match_from :: "re \<Rightarrow> char option \<Rightarrow> string \<Rightarrow> string list" where
  "re_match_from r p s =
     (case re_find r p s of
        None \<Rightarrow> []
      | Some m \<Rightarrow>
          matched m #
          (if matched m = [] then
             (case after m of [] \<Rightarrow> [] | c # cs \<Rightarrow> re_match_from r (Some c) cs)
           else re_match_from r (Some (last (matched m))) (after m)))"
  by pat_completeness auto
termination
proof (relation "measure (\<lambda>(r, p, s). length s)")
  show "wf (measure (\<lambda>(r, p, s). length s))" by simp
next
  fix r p s m c cs
  assume "re_find r p s = Some m" "after m = c # cs"
  then have "s = before m @ matched m @ c # cs" using re_find_split by metis
  then show "((r, Some c, cs), (r, p, s)) \<in> measure (\<lambda>(r, p, s). length s)" by simp
next
  fix r :: re and p s m
  assume "re_find r p s = Some m" "matched m \<noteq> []"
  then have "s = before m @ matched m @ after m" "length (matched m) > 0"
    using re_find_split by auto
  then have "length (after m) < length s" by (metis add.commute length_append less_add_same_cancel2 trans_less_add2)
  then show "((r, Some (last (matched m)), after m), (r, p, s)) \<in> measure (\<lambda>(r, p, s). length s)"
    by simp
qed

text \<open>
  The equations of the two loops rewrite a call into a term that contains calls again: they
  are unfolded by hand.
\<close>

declare re_replace_from.simps [simp del]
declare re_match_from.simps [simp del]

definition re_match_all :: "re \<Rightarrow> string \<Rightarrow> string list" where
  "re_match_all r s = re_match_from r None s"

text \<open>The replacement by a fixed text, and \<^verbatim>\<open>replace(/\s+/g, ' ')\<close>, which the source uses throughout.\<close>

definition const_text :: "string \<Rightarrow> found \<Rightarrow> string" where
  "const_text t m = t"

definition collapse_ws :: "string \<Rightarrow> string" where
  "collapse_ws s = re_replace_all (Plus sp) (const_text '' '') s"

section \<open>Text normalisation (\<^verbatim>\<open>cleanExtractedText\<close>)\<close>

text \<open>\<^verbatim>\<open>text.split('\n').map(line => line.trim()).filter(line => line.length > 0)\<close>.\<close>

definition split_lines :: "string \<Rightarrow> string list" where
  "split_lines s = filter (\<lambda>line. length line > 0) (map trim (split CHR 0x0A s))"

text \<open>Patterns joined by \<^verbatim>\<open>\s+\<close> and by \<^verbatim>\<open>\s*\<close>.\<close>

fun spaced :: "re \<Rightarrow> re list \<Rightarrow> re" where
  "spaced sep [] = Eps"
| "spaced sep [r] = r"
| "spaced sep (r # rs) = Seq r (Seq sep (spaced sep rs))"

definition words_i :: "string list \<Rightarrow> re" where
  "words_i ws = seqs [WordB, spaced (Plus sp) (map ilit ws), WordB]"

definition words_cs :: "string list \<Rightarrow> re" where
  "words_cs ws = seqs [WordB, spaced (Plus sp) (map lit ws), WordB]"

text \<open>
  \<^verbatim>\<open>[^\x20-\x7E\u00A0-\uFFFF]\<close>: what is neither printable ASCII nor at or above the
  no-break space.
\<close>

definition non_printable :: "char \<Rightarrow> bool" where
  "non_printable c \<longleftrightarrow> \<not> ((CHR 0x20 \<le> c \<and> c \<le> CHR 0x7E) \<or> CHR 0xA0 \<le> c)"

text \<open>\<^verbatim>\<open>[^\w\s.,\-/&$]\<close>.\<close>

definition special_char :: "char \<Rightarrow> bool" where
  "special_char c \<longleftrightarrow> \<not> (is_word c \<or> is_space c \<or> c \<in> set ''.,-/&$'')"

text \<open>
  The corrections applied to every line whatever its place, in the order of the source:
  address, card number, licence class, date and fee corrections, then the removal of
  artefacts. A replacement text of the source is inserted as it is written: none of
  them names a group that its pattern has, but \<^verbatim>\<open>'#$1'\<close>.
\<close>

definition line_corrections :: "(re \<times> (found \<Rightarrow> string)) list" where
  "line_corrections =
     [(words_i [''Cos'', ''iy''], const_text ''Cos iy''),
      (words_i [''WENTWORTHVILLE''], const_text ''WENTWORTHVILLE''),
      (words_i [''CHRISTIAN''], const_text ''CHRISTIAN''),
      (words_i [''NORTHMEAD'', ''AVE''], const_text ''NORTHMEAD AVE''),
      (seqs [WordB, spaced (Star sp) (map lit [''G4'', ''307'', ''169'']), WordB],
         const_text ''G4 307 169''),
      (seqs [WordB, spaced (Star sp) (map lit [''G'', ''4'', ''3'', ''0'', ''7'', ''1'', ''6'', ''9'']),
             WordB],
         const_text ''G4 307 169''),
      (words_i [''LE'', ''a'', ''ll'', ''I'', ''pe'', ''Cu'', ''A'', ''bi'', ''fi'', ''I'', ''cgi'',
                ''i'', ''Eat'', ''Cs''],
         const_text ''C & Ty A''),
      (seqs [WordB, spaced (Star sp) (map ilit [''C'', ''&'', ''Ty'', ''A'']), WordB],
         const_text ''C & Ty A''),
      (words_i [''Class'', ''Gvenice'', ''sealing'', ''up'', ''to''], const_text ''Class C & Ty A''),
      (words_cs [''20'', ''AUG'', ''1976''], const_text ''20 AUG 1976''),
      (words_cs [''19'', ''JAN'', ''2029''], const_text ''19 JAN 2029''),
      (words_cs [''17'', ''APR'', ''1985''], const_text ''17 APR 1985''),
      (words_cs [''18'', ''OCT'', ''2033''], const_text ''18 OCT 2033''),
      (seqs [WordB, ilit ''Licence'', Plus sp, ilit ''Fee'', Plus sp, Opt (ich CHR ''S''),
             lit ''171'', Star sp, lit ''00'', WordB],
         const_text ''Licence Fee $171.00''),
      (seqs [WordB, lit ''Elf'', Star sp, ch CHR 0x7D, Star sp, WordB], const_text ''''),
      (seqs [WordB, lit ''UNIT'', Plus sp, Plus dg, Plus sp, lit ''SR'', Plus sp, lit ''P='',
             Star sp, WordB],
         const_text ''''),
      (seqs [WordB, ch CHR ''#'', Star sp, Group 1 (Plus dg), WordB], \<lambda>m. ''#'' @ cap m 1)]"

definition domain_keyword :: re where
  "domain_keyword =
     seqs [WordB,
           Group 1 (alts (map ilit [''name'', ''card'', ''licence'', ''address'', ''date'',
                                     ''class'', ''fee''])),
           WordB]"

text \<open>
  The body of \<^verbatim>\<open>lines.map((line, index) => ...)\<close>. \<^verbatim>\<open>lines[index - 1]\<close> is read only
  when \<open>index\<close> is at least 3.
\<close>

definition correct_line :: "string list \<Rightarrow> nat \<Rightarrow> string \<Rightarrow> string" where
  "correct_line lines index line =
     (let c0 = line;
          c1 = (if includes_str (toLowerCase line) ''new'' \<and> includes_str (toLowerCase line) ''wales''
                then re_replace (words_i [''New'', ''South'', ''Wales'', ''Australia''])
                       (const_text ''New South Wales, Australia'')
                       (re_replace (words_i [''New'', ''Bouth'', ''Wales''])
                          (const_text ''New South Wales'') c0)
                else c0);
          c2 = (if index < 3 \<or> includes_str (toLowerCase (lines ! (index - 1))) ''card''
                then re_replace (words_i [''MARIAM'', ''RIZWAN'', ''KHAN''])
                       (const_text ''MARIAM RIZWAN KHAN'')
                       (re_replace (words_i [''GAUSWAMI'', ''VEJAY'', ''GIR''])
                          (const_text ''GAUSWAMI VEJAY GIR'')
                          (re_replace (words_i [''Bhupendragdiri''])
                             (const_text ''Bhupendra Giri'') c1))
                else c1);
          c3 = fold (\<lambda>(r, f) c. re_replace r f c) line_corrections c2
      in if length c3 > 100 \<and> \<not> re_test domain_keyword c3 then '''' else c3)"

text \<open>
  Steps 1 and 2 of \<^verbatim>\<open>cleanExtractedText\<close>: white space collapsed, non-printable characters
  removed, the text trimmed and then split into lines.
\<close>

definition clean_lines :: "string \<Rightarrow> string list" where
  "clean_lines text' =
     split_lines (trim (re_replace_all (Atom non_printable) (const_text '''') (collapse_ws text')))"

definition cleanExtractedText :: "string \<Rightarrow> string" where
  "cleanExtractedText text' =
     (let lines = clean_lines text';
          correctedLines =
            filter (\<lambda>line. length line > 0)
              (map (\<lambda>(index, line). correct_line lines index line) (enumerate 0 lines));
          finalText = join [CHR 0x0A] correctedLines
      in trim (collapse_ws (re_replace_all (Atom special_char) (const_text '''') finalText)))"

section \<open>Recognition with the low-confidence fallback (\<^verbatim>\<open>performOCR\<close>)\<close>

text \<open>
  The recognition engine is outside the program. A call of it either fails or returns
  a text and a confidence; the model takes the outcome of the first call and the outcome
  the fallback call has if it is made, and reports the calls made beside the result.
  A failure of the first call is rethrown; a failure of the fallback call is caught.
\<close>

record recognition =
  ocr_text :: string
  ocr_confidence :: real

datatype ocr_error = RecognitionError

datatype engine_call = Recognize | FallbackRecognize

definition performFallbackOCR ::
  "(ocr_error + recognition) \<Rightarrow> (ocr_error + recognition) \<times> engine_call list" where
  "performFallbackOCR fallback = (fallback, [FallbackRecognize])"

definition performOCR ::
  "(ocr_error + recognition) \<Rightarrow> (ocr_error + recognition)
     \<Rightarrow> (ocr_error + recognition) \<times> engine_call list" where
  "performOCR first fallback =
     (case first of
        Inl e \<Rightarrow> (Inl e, [Recognize])
      | Inr result \<Rightarrow>
          let cleanedText = cleanExtractedText (ocr_text result) in
          if ocr_confidence result < 40 then
            (case performFallbackOCR fallback of
               (Inr fallbackResult, calls) \<Rightarrow>
                 if ocr_confidence fallbackResult > ocr_confidence result
                 then (Inr \<lparr>ocr_text = cleanExtractedText (ocr_text fallbackResult),
                            ocr_confidence = ocr_confidence fallbackResult\<rparr>, Recognize # calls)
                 else (Inr \<lparr>ocr_text = cleanedText, ocr_confidence = ocr_confidence result\<rparr>,
                       Recognize # calls)
             | (Inl fallbackError, calls) \<Rightarrow>
                 (Inr \<lparr>ocr_text = cleanedText, ocr_confidence = ocr_confidence result\<rparr>, Recognize # calls))
          else (Inr \<lparr>ocr_text = cleanedText, ocr_confidence = ocr_confidence result\<rparr>, [Recognize]))"

section \<open>Field extraction (\<^verbatim>\<open>extractFields\<close>)\<close>

text \<open>
  An extracted field. The source's field \<^verbatim>\<open>value\<close> is \<open>value'\<close> here. Every confidence
  the program assigns is a whole number.
\<close>

record ExtractedField =
  label :: string
  value' :: string
  confidence :: int

text \<open>\<^verbatim>\<open>fields.find(f => f.label === l)\<close>, used as a truth value. (The source's \<^verbatim>\<open>fields\<close> is \<open>fields'\<close> here.)\<close>

definition has_label :: "string \<Rightarrow> ExtractedField list \<Rightarrow> bool" where
  "has_label l fields' \<longleftrightarrow> list_ex (\<lambda>f. label f = l) fields'"

text \<open>The first element of a list on which \<open>f\<close> succeeds: a loop that returns at its first hit.\<close>

fun first_some :: "('a \<Rightarrow> 'b option) \<Rightarrow> 'a list \<Rightarrow> 'b option" where
  "first_some f [] = None"
| "first_some f (x # xs) = (case f x of Some y \<Rightarrow> Some y | None \<Rightarrow> first_some f xs)"

subsection \<open>Document type\<close>

definition detectDocumentType :: "string list \<Rightarrow> string" where
  "detectDocumentType lines =
     (let fullText = toLowerCase (join '' '' lines) in
      if includes_str fullText ''licence'' \<or> includes_str fullText ''license''
         \<or> includes_str fullText ''driver'' then ''license''
      else if includes_str fullText ''invoice'' \<or> includes_str fullText ''receipt''
         \<or> includes_str fullText ''total'' \<or> includes_str fullText ''amount'' then ''invoice''
      else if includes_str fullText ''passport'' \<or> includes_str fullText ''travel document''
         then ''passport''
      else if includes_str fullText ''card'' \<or> includes_str fullText ''id''
         \<or> includes_str fullText ''identification'' then ''id''
      else ''generic'')"

subsection \<open>Document structure\<close>

text \<open>
  An entry of \<^verbatim>\<open>lineContexts\<close>, with the source's fields \<^verbatim>\<open>line\<close>, \<^verbatim>\<open>context\<close> and
  \<^verbatim>\<open>index\<close>.
\<close>

record line_context =
  lc_line :: string
  lc_context :: "string list"
  lc_index :: nat

record DocumentStructure =
  headerSection :: "string list"
  cardSection :: "string list"
  addressSection :: "string list"
  classSection :: "string list"
  dateSection :: "string list"
  feeSection :: "string list"
  allText :: string
  lineContexts :: "line_context list"

definition street_suffixes :: "string list" where
  "street_suffixes = [''ave'', ''road'', ''street'', ''drive'', ''lane'', ''way'', ''place'',
                      ''close'', ''court'', ''crescent'', ''st'']"

definition letter_or_space :: "char \<Rightarrow> bool" where
  "letter_or_space c \<longleftrightarrow> is_alpha c \<or> is_space c"

text \<open>\<^verbatim>\<open>/\b\d+\s+[a-zA-Z\s]+(?:ave|road|...|st)\b/i\<close> and \<^verbatim>\<open>/\b[a-zA-Z\s]+NSW\s+\d{4}\b/i\<close>.\<close>

definition re_street_line :: re where
  "re_street_line =
     seqs [WordB, Plus dg, Plus sp, Plus (Atom (icase letter_or_space)),
           alts (map ilit street_suffixes), WordB]"

definition re_nsw_line :: re where
  "re_nsw_line =
     seqs [WordB, Plus (Atom (icase letter_or_space)), ilit ''NSW'', Plus sp, Rep 4 dg, WordB]"

text \<open>\<^verbatim>\<open>/\bC\s*&\s*[A-Z][a-z]*\s*[A-Z]\b/i\<close>.\<close>

definition re_class_line :: re where
  "re_class_line =
     seqs [WordB, ich CHR ''C'', Star sp, ch CHR ''&'', Star sp, Atom (icase is_upper),
           Star (Atom (icase is_lower)), Star sp, Atom (icase is_upper), WordB]"

text \<open>\<^verbatim>\<open>/\b\d{1,2}\s+[a-z]{3}\s+\d{4}\b/i\<close> and \<^verbatim>\<open>/\$\d+(?:\.\d{2})?/\<close>.\<close>

definition re_date_line :: re where
  "re_date_line =
     seqs [WordB, Range 1 2 dg, Plus sp, Rep 3 (Atom (icase is_lower)), Plus sp, Rep 4 dg, WordB]"

definition re_dollar :: re where
  "re_dollar = seqs [ch CHR ''$'', Plus dg, Opt (Seq (ch CHR ''.'') (Rep 2 dg))]"

text \<open>
  The context of the line at \<open>index\<close>: the lines from \<^verbatim>\<open>Math.max(0, index - 2)\<close> to
  \<^verbatim>\<open>Math.min(lines.length - 1, index + 2)\<close> but the line itself.
\<close>

definition context_of :: "string list \<Rightarrow> nat \<Rightarrow> string list" where
  "context_of lines index =
     map (\<lambda>i. lines ! i)
       (filter (\<lambda>i. i \<noteq> index) [index - 2 ..< min (length lines) (index + 3)])"

definition in_card_section :: "string \<Rightarrow> bool" where
  "in_card_section line \<longleftrightarrow>
     (let lowerLine = toLowerCase line in
      includes_str lowerLine ''card'' \<or> includes_str lowerLine ''licence''
      \<or> includes_str lowerLine ''number'')"

definition in_address_section :: "string \<Rightarrow> bool" where
  "in_address_section line \<longleftrightarrow> re_test re_street_line line \<or> re_test re_nsw_line line"

definition in_class_section :: "string \<Rightarrow> bool" where
  "in_class_section line \<longleftrightarrow>
     includes_str (toLowerCase line) ''class'' \<or> re_test re_class_line line"

definition in_date_section :: "string \<Rightarrow> bool" where
  "in_date_section line \<longleftrightarrow>
     (let lowerLine = toLowerCase line in
      re_test re_date_line line \<or> includes_str lowerLine ''birth''
      \<or> includes_str lowerLine ''expir'' \<or> includes_str lowerLine ''date'')"

definition in_fee_section :: "string \<Rightarrow> bool" where
  "in_fee_section line \<longleftrightarrow> includes_str (toLowerCase line) ''fee'' \<or> re_test re_dollar line"

text \<open>
  The two \<^verbatim>\<open>forEach\<close> loops push in the order of the lines, so each section is the
  list of the lines that pass its test, in the order of the document; the header is
  the lines with an index below 3.
\<close>

definition analyzeDocumentStructure :: "string list \<Rightarrow> DocumentStructure" where
  "analyzeDocumentStructure lines =
     \<lparr>headerSection = take 3 lines,
      cardSection = filter in_card_section lines,
      addressSection = filter in_address_section lines,
      classSection = filter in_class_section lines,
      dateSection = filter in_date_section lines,
      feeSection = filter in_fee_section lines,
      allText = toLowerCase (join '' '' lines),
      lineContexts =
        map (\<lambda>(i, l). \<lparr>lc_line = l, lc_context = context_of lines i, lc_index = i\<rparr>)
          (enumerate 0 lines)\<rparr>"

subsection \<open>Card number\<close>

text \<open>
  \<^verbatim>\<open>/\b([A-Z]\d{1,3}\s+\d{3}\s+\d{3})\b/\<close>, \<^verbatim>\<open>/\b([A-Z]\s*\d{1,3}\s*\d{3}\s*\d{3})\b/\<close>,
  \<^verbatim>\<open>/\b([A-Z]\d{7})\b/\<close>, \<^verbatim>\<open>/\b(\d{6,9})\b/\<close>.
\<close>

definition cardPatterns :: "re list" where
  "cardPatterns =
     [seqs [WordB, Group 1 (seqs [up, Range 1 3 dg, Plus sp, Rep 3 dg, Plus sp, Rep 3 dg]), WordB],
      seqs [WordB, Group 1 (seqs [up, Star sp, Range 1 3 dg, Star sp, Rep 3 dg, Star sp, Rep 3 dg]),
            WordB],
      seqs [WordB, Group 1 (seqs [up, Rep 7 dg]), WordB],
      seqs [WordB, Group 1 (Range 6 9 dg), WordB]]"

text \<open>\<^verbatim>\<open>/^[A-Z]\d{6,8}$/\<close>, \<^verbatim>\<open>/^\d{6,9}$/\<close> and \<^verbatim>\<open>/^\d{4,}\s+\d{2,}$/\<close>.\<close>

definition isValidCardNumber :: "string \<Rightarrow> bool" where
  "isValidCardNumber cardNumber \<longleftrightarrow>
     (let clean = re_replace_all (Plus sp) (const_text '''') cardNumber in
      if re_test (seqs [Bol, up, Range 6 8 dg, Eol]) clean then True
      else if re_test (seqs [Bol, Range 6 9 dg, Eol]) clean then True
      else if re_test (seqs [Bol, AtLeast 4 dg, Plus sp, AtLeast 2 dg, Eol]) cardNumber then True
      else False)"

definition try_card :: "re \<times> string \<Rightarrow> string option" where
  "try_card pl =
     (case pl of (pattern, line) \<Rightarrow>
        (case re_exec pattern line of
           None \<Rightarrow> None
         | Some m \<Rightarrow>
             let raw = trim (collapse_ws (cap m 1)) in
             if isValidCardNumber raw then Some raw else None))"

definition extractCardNumber :: "ExtractedField list \<Rightarrow> DocumentStructure \<Rightarrow> ExtractedField list" where
  "extractCardNumber fields' structure =
     (if has_label ''Card Number'' fields' then fields'
      else (case first_some try_card (List.product cardPatterns (cardSection structure)) of
              Some raw \<Rightarrow>
                fields' @ [\<lparr>label = ''Card Number'', value' = raw, confidence = 95\<rparr>]
            | None \<Rightarrow> fields'))"

subsection \<open>Name\<close>

definition commonWords :: "string list" where
  "commonWords =
     [''New'', ''South'', ''Wales'', ''Australia'', ''Transport'', ''NSW'', ''Licence'', ''Class'',
      ''Date'', ''Birth'', ''Expiry'', ''Number'', ''Card'', ''Address'', ''Road'', ''Avenue'',
      ''Street'', ''Drive'', ''Lane'', ''Way'', ''Place'', ''Close'', ''Court'', ''Crescent'',
      ''The'', ''And'', ''For'', ''With'', ''From'', ''This'', ''That'', ''Will'', ''Have'', ''Been'']"

definition isCommonWord :: "string \<Rightarrow> bool" where
  "isCommonWord text' \<longleftrightarrow> list_ex (\<lambda>word. includes_str text' word) commonWords"

text \<open>\<^verbatim>\<open>[A-Z][a-z]+\<close>, and \<^verbatim>\<open>/\b([A-Z][a-z]+(?:\s+[A-Z][a-z]+){1,3})\b/\<close>.\<close>

definition cap_word :: re where
  "cap_word = Seq up (Plus lw)"

definition re_name :: re where
  "re_name = seqs [WordB, Group 1 (Seq cap_word (Range 1 3 (Seq (Plus sp) cap_word))), WordB]"

text \<open>\<^verbatim>\<open>/^[A-Z][a-z]+(?:\s+[A-Z][a-z]+)+$/\<close>.\<close>

definition isValidName :: "string \<Rightarrow> bool" where
  "isValidName name \<longleftrightarrow>
     (if isCommonWord name then False
      else if length name < 5 \<or> length name > 50 then False
      else if \<not> re_test (seqs [Bol, cap_word, Plus (Seq (Plus sp) cap_word), Eol]) name then False
      else (let parts = split CHR '' '' name in
            length parts \<ge> 2 \<and> list_all (\<lambda>part. length part \<ge> 2) parts))"

definition try_name :: "string \<Rightarrow> string option" where
  "try_name line =
     (case re_exec re_name line of
        None \<Rightarrow> None
      | Some nameMatch \<Rightarrow>
          if length (cap nameMatch 1) > 4 \<and> isValidName (cap nameMatch 1)
          then Some (cap nameMatch 1) else None)"

definition extractName :: "ExtractedField list \<Rightarrow> DocumentStructure \<Rightarrow> ExtractedField list" where
  "extractName fields' structure =
     (if has_label ''Name'' fields' then fields'
      else (case first_some try_name (cardSection structure @ headerSection structure) of
              Some name \<Rightarrow> fields' @ [\<lparr>label = ''Name'', value' = name, confidence = 97\<rparr>]
            | None \<Rightarrow> fields'))"

subsection \<open>Address\<close>

definition street_suffixes_upper :: "string list" where
  "street_suffixes_upper = [''AVE'', ''ROAD'', ''STREET'', ''DRIVE'', ''LANE'', ''WAY'', ''PLACE'',
                            ''CLOSE'', ''COURT'', ''CRESCENT'', ''ST'']"

text \<open>
  \<^verbatim>\<open>/\b(\d+)\s+([A-Z][a-z]+(?:\s+[A-Z][a-z]+)*)\s+(AVE|ROAD|...|ST)\b/i\<close>: under the
  \<^verbatim>\<open>i\<close> flag both \<^verbatim>\<open>[A-Z]\<close> and \<^verbatim>\<open>[a-z]\<close> stand for any letter.
\<close>

definition re_street :: re where
  "re_street =
     seqs [WordB, Group 1 (Plus dg), Plus sp,
           Group 2 (Seq (Seq (Atom (icase is_upper)) (Plus (Atom (icase is_lower))))
                      (Star (seqs [Plus sp, Atom (icase is_upper), Plus (Atom (icase is_lower))]))),
           Plus sp, Group 3 (alts (map ilit street_suffixes_upper)), WordB]"

text \<open>\<^verbatim>\<open>/\b([A-Z][a-z]+(?:\s+[A-Z][a-z]+)*)\s+NSW\s+(\d{4})\b/\<close>.\<close>

definition re_suburb :: re where
  "re_suburb =
     seqs [WordB, Group 1 (Seq cap_word (Star (Seq (Plus sp) cap_word))), Plus sp, lit ''NSW'',
           Plus sp, Group 2 (Rep 4 dg), WordB]"

text \<open>
  \<^verbatim>\<open>/\b\d+\s+[A-Z][a-z]+\s+(?:AVE|ROAD|...|ST)\b/i\<close> and \<^verbatim>\<open>/\bNSW\s+\d{4}\b/\<close>.
\<close>

definition isValidAddress :: "string \<Rightarrow> bool" where
  "isValidAddress address \<longleftrightarrow>
     length address > 10
     \<and> re_test (seqs [WordB, Plus dg, Plus sp, Atom (icase is_upper), Plus (Atom (icase is_lower)),
                      Plus sp, alts (map ilit street_suffixes_upper), WordB]) address
     \<and> re_test (seqs [WordB, lit ''NSW'', Plus sp, Rep 4 dg, WordB]) address"

definition address_parts :: "string \<Rightarrow> string list" where
  "address_parts line =
     (case re_exec re_street line of
        None \<Rightarrow> []
      | Some streetMatch \<Rightarrow>
          [cap streetMatch 1 @ '' '' @ cap streetMatch 2 @ '' '' @ cap streetMatch 3])
     @ (case re_exec re_suburb line of
          None \<Rightarrow> []
        | Some suburbMatch \<Rightarrow> [cap suburbMatch 1 @ '' NSW '' @ cap suburbMatch 2])"

definition extractAddress :: "ExtractedField list \<Rightarrow> DocumentStructure \<Rightarrow> ExtractedField list" where
  "extractAddress fields' structure =
     (if has_label ''Address'' fields' then fields'
      else (let addressParts = concat (map address_parts (addressSection structure)) in
            if length addressParts > 0 \<and> isValidAddress (join '', '' addressParts)
            then fields' @ [\<lparr>label = ''Address'', value' = join '', '' addressParts,
                             confidence = 95\<rparr>]
            else fields'))"

subsection \<open>Licence class\<close>

definition validClasses :: "string list" where
  "validClasses = [''C'', ''C & Ty A'', ''CA'', ''MR'', ''HR'', ''HC'', ''MC'']"

definition isValidLicenseClass :: "string \<Rightarrow> bool" where
  "isValidLicenseClass classValue \<longleftrightarrow>
     (let normalized = toUpperCase (collapse_ws classValue) in
      list_ex (\<lambda>cls. includes_str normalized (collapse_ws cls)) validClasses)"

text \<open>
  \<^verbatim>\<open>/\bClass\s+([A-Z]\s*&\s*[A-Z][a-z]*\s*[A-Z]|[A-Z]+(?:\s+[A-Z]+)*)\b/i\<close>,
  \<^verbatim>\<open>/\b([A-Z]\s*&\s*[A-Z][a-z]*\s*[A-Z])\b/\<close> and \<^verbatim>\<open>/\b(C\s*&\s*Ty\s*A)\b/i\<close>.
\<close>

definition classPatterns :: "re list" where
  "classPatterns =
     [seqs [WordB, ilit ''Class'', Plus sp,
            Group 1 (Alt (seqs [Atom (icase is_upper), Star sp, ch CHR ''&'', Star sp,
                                Atom (icase is_upper), Star (Atom (icase is_lower)), Star sp,
                                Atom (icase is_upper)])
                         (Seq (Plus (Atom (icase is_upper)))
                              (Star (Seq (Plus sp) (Plus (Atom (icase is_upper))))))),
            WordB],
      seqs [WordB, Group 1 (seqs [up, Star sp, ch CHR ''&'', Star sp, up, Star lw, Star sp, up]),
            WordB],
      seqs [WordB, Group 1 (spaced (Star sp) (map ilit [''C'', ''&'', ''Ty'', ''A''])), WordB]]"

definition try_class :: "string \<times> re \<Rightarrow> string option" where
  "try_class lp =
     (case lp of (line, pattern) \<Rightarrow>
        (case re_exec pattern line of
           None \<Rightarrow> None
         | Some m \<Rightarrow>
             if isValidLicenseClass (cap m 1) then Some (trim (collapse_ws (cap m 1))) else None))"

text \<open>The fallback: \<^verbatim>\<open>/\b([A-Z]{1,2})\b/\<close> on the lower-cased text of the whole document.\<close>

definition re_single_class :: re where
  "re_single_class = seqs [WordB, Group 1 (Range 1 2 up), WordB]"

definition extractLicenseClass :: "ExtractedField list \<Rightarrow> DocumentStructure \<Rightarrow> ExtractedField list" where
  "extractLicenseClass fields' structure =
     (if has_label ''License Class'' fields' then fields'
      else (case first_some try_class (List.product (classSection structure) classPatterns) of
              Some classValue \<Rightarrow>
                fields' @ [\<lparr>label = ''License Class'', value' = classValue, confidence = 96\<rparr>]
            | None \<Rightarrow>
                (case re_exec re_single_class (allText structure) of
                   None \<Rightarrow> fields'
                 | Some singleClassMatch \<Rightarrow>
                     if isValidLicenseClass (cap singleClassMatch 1)
                     then fields' @ [\<lparr>label = ''License Class'',
                                      value' = cap singleClassMatch 1, confidence = 85\<rparr>]
                     else fields')))"

subsection \<open>Dates\<close>

text \<open>\<^verbatim>\<open>/\b(\d{1,2}\s+[A-Z]{3}\s+\d{4})\b/gi\<close>: every match of a line.\<close>

definition re_date_gi :: re where
  "re_date_gi =
     seqs [WordB, Group 1 (seqs [Range 1 2 dg, Plus sp, Rep 3 (Atom (icase is_upper)), Plus sp,
                                  Rep 4 dg]), WordB]"

text \<open>A collected date: the matched text in capitals and its line in small letters.\<close>

record dated =
  date :: string
  date_context :: string

definition dates_of_line :: "string \<Rightarrow> dated list" where
  "dates_of_line line =
     map (\<lambda>d. \<lparr>date = toUpperCase d, date_context = toLowerCase line\<rparr>) (re_match_all re_date_gi line)"

text \<open>
  \<^verbatim>\<open>filter((item, index, self) => index === self.findIndex(t => t.date === item.date))\<close>:
  the first entry of every date.
\<close>

fun uniqueDates :: "string list \<Rightarrow> dated list \<Rightarrow> dated list" where
  "uniqueDates seen [] = []"
| "uniqueDates seen (d # ds) =
     (if date d \<in> set seen then uniqueDates seen ds else d # uniqueDates (date d # seen) ds)"

text \<open>The body of \<^verbatim>\<open>uniqueDates.forEach\<close>: the assignment of a date by its context.\<close>

definition assign_date :: "dated \<Rightarrow> ExtractedField list \<Rightarrow> ExtractedField list" where
  "assign_date d fields' =
     (if includes_str (date_context d) ''birth'' \<and> \<not> has_label ''Date of Birth'' fields'
      then fields' @ [\<lparr>label = ''Date of Birth'', value' = date d, confidence = 98\<rparr>]
      else if (includes_str (date_context d) ''expir'' \<or> includes_str (date_context d) ''valid'')
              \<and> \<not> has_label ''Expiry Date'' fields'
      then fields' @ [\<lparr>label = ''Expiry Date'', value' = date d, confidence = 98\<rparr>]
      else fields')"

text \<open>The fallback: the dates that are the value of no field yet, by position.\<close>

definition assign_remaining :: "dated list \<Rightarrow> ExtractedField list \<Rightarrow> ExtractedField list" where
  "assign_remaining unique fields' =
     (let remainingDates = filter (\<lambda>d. \<not> list_ex (\<lambda>f. value' f = date d) fields') unique;
          fields1 = (if length remainingDates \<ge> 1 \<and> \<not> has_label ''Date of Birth'' fields'
                     then fields' @ [\<lparr>label = ''Date of Birth'', value' = date (remainingDates ! 0),
                                      confidence = 90\<rparr>]
                     else fields')
      in if length remainingDates \<ge> 2 \<and> \<not> has_label ''Expiry Date'' fields1
         then fields1 @ [\<lparr>label = ''Expiry Date'', value' = date (remainingDates ! 1),
                          confidence = 90\<rparr>]
         else fields1)"

definition extractDates :: "ExtractedField list \<Rightarrow> DocumentStructure \<Rightarrow> ExtractedField list" where
  "extractDates fields' structure =
     (let extractedDates = concat (map dates_of_line (dateSection structure));
          unique = uniqueDates [] extractedDates
      in assign_remaining unique (fold assign_date unique fields'))"

subsection \<open>Licence fee\<close>

text \<open>
  \<^verbatim>\<open>parseFloat\<close>: leading white space, a sign, digits, a fraction and an exponent; the
  longest such prefix counts. \<open>None\<close> stands for \<^verbatim>\<open>NaN\<close>, and also for the two
  infinities, which the only caller rejects like \<^verbatim>\<open>NaN\<close>. The value is the binary64
  value nearest to the decimal one.
\<close>

definition digit_value :: "char \<Rightarrow> nat" where
  "digit_value c = length (takeWhile (\<lambda>d. d \<noteq> c) ''0123456789'')"

definition digits_value :: "string \<Rightarrow> int" where
  "digits_value ds = foldl (\<lambda>n c. 10 * n + int (digit_value c)) 0 ds"

definition exponent_of :: "string \<Rightarrow> int" where
  "exponent_of s =
     (case s of
        [] \<Rightarrow> 0
      | e # r \<Rightarrow>
          if e = CHR ''e'' \<or> e = CHR ''E'' then
            (case r of
               [] \<Rightarrow> 0
             | c # r' \<Rightarrow>
                 if c = CHR ''-'' then
                   (if takeWhile is_digit r' = [] then 0
                    else - digits_value (takeWhile is_digit r'))
                 else if c = CHR ''+'' then digits_value (takeWhile is_digit r')
                 else digits_value (takeWhile is_digit r))
          else 0)"

definition parseFloat :: "string \<Rightarrow> rat option" where
  "parseFloat s =
     (let s1 = dropWhile is_space s;
          negative = (case s1 of [] \<Rightarrow> False | c # r \<Rightarrow> c = CHR ''-'');
          s2 = (case s1 of [] \<Rightarrow> [] | c # r \<Rightarrow> if c = CHR ''-'' \<or> c = CHR ''+'' then r else s1);
          ip = takeWhile is_digit s2;
          r1 = dropWhile is_digit s2;
          has_point = (case r1 of [] \<Rightarrow> False | c # r \<Rightarrow> c = CHR ''.'');
          fp = (if has_point then takeWhile is_digit (tl r1) else []);
          r2 = (if has_point then dropWhile is_digit (tl r1) else r1);
          mantissa = (of_int (digits_value ip) + of_int (digits_value fp) / 10 ^ length fp :: rat);
          ex = exponent_of r2;
          magnitude = (if ex \<ge> 0 then mantissa * 10 ^ nat ex else mantissa / 10 ^ nat (- ex))
      in if ip = [] \<and> fp = [] then None
         else if overflows magnitude then None
         else Some (binary64 (if negative then - magnitude else magnitude)))"

definition isValidAmount :: "string \<Rightarrow> bool" where
  "isValidAmount amount \<longleftrightarrow>
     (case parseFloat amount of None \<Rightarrow> False | Some num \<Rightarrow> num > 0 \<and> num < 10000)"

text \<open>\<^verbatim>\<open>/\bLicence\s+Fee\s+\$?(\d+(?:\.\d{2})?)\b/i\<close>.\<close>

definition re_fee :: re where
  "re_fee =
     seqs [WordB, ilit ''Licence'', Plus sp, ilit ''Fee'', Plus sp, Opt (ch CHR ''$''),
           Group 1 (Seq (Plus dg) (Opt (Seq (ch CHR ''.'') (Rep 2 dg)))), WordB]"

definition try_fee :: "string \<Rightarrow> string option" where
  "try_fee line =
     (case re_exec re_fee line of
        None \<Rightarrow> None
      | Some feeMatch \<Rightarrow> if isValidAmount (cap feeMatch 1) then Some (cap feeMatch 1) else None)"

definition extractLicenseFee :: "ExtractedField list \<Rightarrow> DocumentStructure \<Rightarrow> ExtractedField list" where
  "extractLicenseFee fields' structure =
     (if has_label ''License Fee'' fields' then fields'
      else (case first_some try_fee (feeSection structure) of
              Some amount \<Rightarrow>
                fields' @ [\<lparr>label = ''License Fee'', value' = ''$'' @ amount, confidence = 97\<rparr>]
            | None \<Rightarrow> fields'))"

subsection \<open>Validation\<close>

text \<open>\<^verbatim>\<open>/\b\d{1,2}\s+[A-Z]{3}\s+\d{4}\b/\<close>.\<close>

definition re_date_value :: re where
  "re_date_value = seqs [WordB, Range 1 2 dg, Plus sp, Rep 3 up, Plus sp, Rep 4 dg, WordB]"

definition keep_field :: "ExtractedField \<Rightarrow> bool" where
  "keep_field f \<longleftrightarrow>
     (let minConfidence = 75 in
      if confidence f < minConfidence then False
      else if label f = ''Card Number'' then isValidCardNumber (value' f)
      else if label f = ''Name'' then isValidName (value' f) \<or> confidence f \<ge> 75
      else if label f = ''Address'' then isValidAddress (value' f) \<or> confidence f \<ge> 75
      else if label f = ''License Class'' then isValidLicenseClass (value' f) \<or> confidence f \<ge> 70
      else if label f = ''Date of Birth'' \<or> label f = ''Expiry Date''
        then re_test re_date_value (value' f) \<or> confidence f \<ge> 70
      else if label f = ''License Fee''
        then isValidAmount (replace_str ''$'' '''' (value' f)) \<or> confidence f \<ge> 80
      else True)"

definition validateAndFilterFields ::
  "ExtractedField list \<Rightarrow> DocumentStructure \<Rightarrow> ExtractedField list" where
  "validateAndFilterFields fields' structure = filter keep_field fields'"

definition extractLicenseFields :: "string list \<Rightarrow> ExtractedField list" where
  "extractLicenseFields lines =
     (let documentStructure = analyzeDocumentStructure lines;
          f1 = extractCardNumber [] documentStructure;
          f2 = extractName f1 documentStructure;
          f3 = extractAddress f2 documentStructure;
          f4 = extractLicenseClass f3 documentStructure;
          f5 = extractDates f4 documentStructure;
          f6 = extractLicenseFee f5 documentStructure
      in validateAndFilterFields f6 documentStructure)"

subsection \<open>Invoices and receipts\<close>

text \<open>
  \<^verbatim>\<open>/\b(?:invoice|receipt)\s*(?:no\.?|number|#)?\s*([A-Z0-9-]+)\b/i\<close>,
  \<^verbatim>\<open>/\b(?:total|amount|sum)\s*\$?\s*(\d+(?:\.\d{2})?)\b/i\<close> and
  \<^verbatim>\<open>/\b(\d{1,2}[/-]\d{1,2}[/-]\d{2,4})\b/\<close>.
\<close>

definition invoice_char :: "char \<Rightarrow> bool" where
  "invoice_char c \<longleftrightarrow> is_upper c \<or> is_digit c \<or> c = CHR ''-''"

definition re_invoice :: re where
  "re_invoice =
     seqs [WordB, Alt (ilit ''invoice'') (ilit ''receipt''), Star sp,
           Opt (alts [Seq (ilit ''no'') (Opt (ch CHR ''.'')), ilit ''number'', ch CHR ''#'']),
           Star sp, Group 1 (Plus (Atom (icase invoice_char))), WordB]"

definition re_total :: re where
  "re_total =
     seqs [WordB, alts [ilit ''total'', ilit ''amount'', ilit ''sum''], Star sp,
           Opt (ch CHR ''$''), Star sp,
           Group 1 (Seq (Plus dg) (Opt (Seq (ch CHR ''.'') (Rep 2 dg)))), WordB]"

definition date_sep :: "char \<Rightarrow> bool" where
  "date_sep c \<longleftrightarrow> c = CHR ''/'' \<or> c = CHR ''-''"

definition re_numeric_date :: re where
  "re_numeric_date =
     seqs [WordB, Group 1 (seqs [Range 1 2 dg, Atom date_sep, Range 1 2 dg, Atom date_sep,
                                  Range 2 4 dg]), WordB]"

text \<open>A test-and-push step: \<^verbatim>\<open>if (m && !fields.find(f => f.label === l)) fields.push(...)\<close>.\<close>

definition push_unless_labelled ::
  "string \<Rightarrow> string option \<Rightarrow> int \<Rightarrow> ExtractedField list \<Rightarrow> ExtractedField list" where
  "push_unless_labelled l v c fields' =
     (case v of
        None \<Rightarrow> fields'
      | Some x \<Rightarrow> if has_label l fields' then fields'
                  else fields' @ [\<lparr>label = l, value' = x, confidence = c\<rparr>])"

definition invoice_line :: "string \<Rightarrow> ExtractedField list \<Rightarrow> ExtractedField list" where
  "invoice_line line fields' =
     (let invoiceMatch = re_exec re_invoice line;
          f1 = push_unless_labelled ''Invoice Number''
                 (map_option (\<lambda>m. cap m 1) invoiceMatch) 90 fields';
          totalMatch = re_exec re_total line;
          f2 = push_unless_labelled ''Total Amount''
                 (map_option (\<lambda>m. ''$'' @ cap m 1) totalMatch) 95 f1;
          dateMatch = re_exec re_numeric_date line
      in push_unless_labelled ''Date'' (map_option (\<lambda>m. cap m 1) dateMatch) 85 f2)"

definition extractInvoiceFields :: "string list \<Rightarrow> ExtractedField list" where
  "extractInvoiceFields lines = fold invoice_line lines []"

subsection \<open>Passports\<close>

text \<open>\<^verbatim>\<open>/\b([A-Z]\d{7,9})\b/\<close>.\<close>

definition re_passport :: re where
  "re_passport = seqs [WordB, Group 1 (Seq up (Range 7 9 dg)), WordB]"

definition passport_line :: "string \<Rightarrow> ExtractedField list \<Rightarrow> ExtractedField list" where
  "passport_line line fields' =
     (let passportMatch = re_exec re_passport line;
          f1 = push_unless_labelled ''Passport Number''
                 (map_option (\<lambda>m. cap m 1) passportMatch) 95 fields';
          nameMatch = re_exec re_name line;
          f2 = push_unless_labelled ''Name'' (map_option (\<lambda>m. cap m 1) nameMatch) 90 f1
      in (case re_exec re_numeric_date line of
            None \<Rightarrow> f2
          | Some dateMatch \<Rightarrow>
              if includes_str (toLowerCase line) ''issue'' \<and> \<not> has_label ''Issue Date'' f2
              then f2 @ [\<lparr>label = ''Issue Date'', value' = cap dateMatch 1, confidence = 90\<rparr>]
              else if includes_str (toLowerCase line) ''expiry'' \<and> \<not> has_label ''Expiry Date'' f2
              then f2 @ [\<lparr>label = ''Expiry Date'', value' = cap dateMatch 1, confidence = 90\<rparr>]
              else f2))"

definition extractPassportFields :: "string list \<Rightarrow> ExtractedField list" where
  "extractPassportFields lines = fold passport_line lines []"

subsection \<open>Generic documents\<close>

definition artifacts :: "string list" where
  "artifacts = [''image'', ''scan'', ''page'', ''document'', ''photo'', ''picture'', ''file'']"

text \<open>\<^verbatim>\<open>/^\d+$/\<close> and \<^verbatim>\<open>/^[^\w\s]+$/\<close>.\<close>

definition punct_char :: "char \<Rightarrow> bool" where
  "punct_char c \<longleftrightarrow> \<not> (is_word c \<or> is_space c)"

definition isMeaningfulField :: "string \<Rightarrow> string \<Rightarrow> bool" where
  "isMeaningfulField lbl val \<longleftrightarrow>
     (if length lbl < 2 \<or> length lbl > 50 \<or> length val < 1 \<or> length val > 200 then False
      else if re_test (seqs [Bol, Plus dg, Eol]) lbl \<or> length lbl = 1 then False
      else if re_test (seqs [Bol, Plus (Atom punct_char), Eol]) lbl
              \<or> re_test (seqs [Bol, Plus (Atom punct_char), Eol]) val then False
      else if list_ex (\<lambda>artifact. includes_str (toLowerCase lbl) artifact) artifacts then False
      else True)"

text \<open>
  \<^verbatim>\<open>label.replace(/:$/, '').replace(/^\s+|\s+$/g, '').replace(/\b\w/g, l => l.toUpperCase())
  .replace(/\s+/g, ' ')\<close>.
\<close>

definition cleanFieldLabel :: "string \<Rightarrow> string" where
  "cleanFieldLabel lbl =
     collapse_ws
       (re_replace_all (Seq WordB wd) (\<lambda>m. toUpperCase (matched m))
          (re_replace_all (Alt (Seq Bol (Plus sp)) (Seq (Plus sp) Eol)) (const_text '''')
             (re_replace (Seq (ch CHR '':'') Eol) (const_text '''') lbl)))"

text \<open>
  \<^verbatim>\<open>/\b[\w.-]+@[\w.-]+\.\w+\b/\<close>,
  \<^verbatim>\<open>/\b(\+?\d{1,3}[-.\s]?)?\(?\d{3}\)?[-.\s]?\d{3}[-.\s]?\d{4}\b/\<close> and
  \<^verbatim>\<open>/\bhttps?:\/\/[^\s]+\b/\<close>.
\<close>

definition mail_char :: "char \<Rightarrow> bool" where
  "mail_char c \<longleftrightarrow> is_word c \<or> c = CHR ''.'' \<or> c = CHR ''-''"

definition phone_sep :: "char \<Rightarrow> bool" where
  "phone_sep c \<longleftrightarrow> c = CHR ''-'' \<or> c = CHR ''.'' \<or> is_space c"

definition re_email :: re where
  "re_email =
     seqs [WordB, Plus (Atom mail_char), ch CHR ''@'', Plus (Atom mail_char), ch CHR ''.'',
           Plus wd, WordB]"

definition re_phone :: re where
  "re_phone =
     seqs [WordB, Opt (Group 1 (seqs [Opt (ch CHR ''+''), Range 1 3 dg, Opt (Atom phone_sep)])),
           Opt (ch CHR ''(''), Rep 3 dg, Opt (ch CHR '')''), Opt (Atom phone_sep), Rep 3 dg,
           Opt (Atom phone_sep), Rep 4 dg, WordB]"

definition re_url :: re where
  "re_url =
     seqs [WordB, lit ''http'', Opt (ch CHR ''s''), lit ''://'', Plus (Atom (\<lambda>c. \<not> is_space c)),
           WordB]"

definition extractStandaloneFields :: "string \<Rightarrow> ExtractedField list \<Rightarrow> ExtractedField list" where
  "extractStandaloneFields line fields' =
     (let f1 = push_unless_labelled ''Email'' (map_option matched (re_exec re_email line)) 90 fields';
          f2 = push_unless_labelled ''Phone'' (map_option matched (re_exec re_phone line)) 85 f1
      in push_unless_labelled ''Website'' (map_option matched (re_exec re_url line)) 85 f2)"

text \<open>\<^verbatim>\<open>/^([^:]+):\s*(.+)$/i\<close>.\<close>

definition re_label_value :: re where
  "re_label_value =
     seqs [Bol, Group 1 (Plus (Atom (\<lambda>c. c \<noteq> CHR '':''))), ch CHR '':'', Star sp,
           Group 2 (Plus (Atom is_dot)), Eol]"

definition generic_line :: "string \<Rightarrow> ExtractedField list \<Rightarrow> ExtractedField list" where
  "generic_line line fields' =
     (let f1 = (case re_exec re_label_value line of
                  None \<Rightarrow> fields'
                | Some labelValueMatch \<Rightarrow>
                    let lbl = trim (cap labelValueMatch 1);
                        val = trim (cap labelValueMatch 2)
                    in if isMeaningfulField lbl val
                       then fields' @ [\<lparr>label = cleanFieldLabel lbl, value' = val,
                                        confidence = 80\<rparr>]
                       else fields')
      in extractStandaloneFields line f1)"

definition extractGenericFields :: "string list \<Rightarrow> ExtractedField list" where
  "extractGenericFields lines = fold generic_line lines []"

subsection \<open>The entry point\<close>

definition lines_of :: "string \<Rightarrow> string list" where
  "lines_of text' = split_lines (trim (collapse_ws text'))"

definition extractFields :: "string \<Rightarrow> ExtractedField list" where
  "extractFields text' =
     (let lines = lines_of text';
          documentType = detectDocumentType lines
      in if documentType = ''license'' \<or> documentType = ''id'' then extractLicenseFields lines
         else if documentType = ''invoice'' \<or> documentType = ''receipt''
           then extractInvoiceFields lines
         else if documentType = ''passport'' then extractPassportFields lines
         else extractGenericFields lines)"

text \<open>
  The caller \<^verbatim>\<open>handleFileSelect\<close> merges the fields of all pages and keeps the first
  entry of every pair of label and value:
  \<^verbatim>\<open>allFields.filter((field, index, self) =>
      index === self.findIndex((f) => f.label === field.label && f.value === field.value))\<close>.
\<close>

fun dedup_fields :: "(string \<times> string) list \<Rightarrow> ExtractedField list \<Rightarrow> ExtractedField list" where
  "dedup_fields seen [] = []"
| "dedup_fields seen (f # fs) =
     (if (label f, value' f) \<in> set seen then dedup_fields seen fs
      else f # dedup_fields ((label f, value' f) # seen) fs)"

section \<open>Auxiliaries of the statements\<close>

text \<open>
  The keyword lists of \<^verbatim>\<open>detectDocumentType\<close> and the test whether the lower-cased text of
  the lines has one of a list of keywords.
\<close>

definition licence_keywords :: "string list" where
  "licence_keywords = [''licence'', ''license'', ''driver'']"

definition invoice_keywords :: "string list" where
  "invoice_keywords = [''invoice'', ''receipt'', ''total'', ''amount'']"

definition passport_keywords :: "string list" where
  "passport_keywords = [''passport'', ''travel document'']"

definition id_keywords :: "string list" where
  "id_keywords = [''card'', ''id'', ''identification'']"

definition mentions :: "string list \<Rightarrow> string list \<Rightarrow> bool" where
  "mentions keywords lines \<longleftrightarrow>
     list_ex (\<lambda>k. includes_str (toLowerCase (join '' '' lines)) k) keywords"

text \<open>
  A section that is empty or the whole list of lines; a list of fields with pairwise
  different labels; a list of fields with no confidence below 75.
\<close>

definition single_or_empty :: "string list \<Rightarrow> string list \<Rightarrow> bool" where
  "single_or_empty lines section' \<longleftrightarrow> section' = [] \<or> section' = lines"

definition distinct_labels :: "ExtractedField list \<Rightarrow> bool" where
  "distinct_labels fs \<longleftrightarrow> distinct (map label fs)"

definition confident :: "ExtractedField list \<Rightarrow> bool" where
  "confident fs \<longleftrightarrow> list_all (\<lambda>f. 75 \<le> confidence f) fs"

text \<open>
  A licence of three lines, with the expiry date before the date of birth, and the one
  line that \<^verbatim>\<open>extractFields\<close> makes of it.
\<close>

definition licence_text :: string where
  "licence_text = ''Licence'' @ [CHR 0x0A] @ ''Expiry 19 JAN 2029'' @ [CHR 0x0A]
                  @ ''Date of Birth 20 AUG 1976''"

definition licence_line :: string where
  "licence_line = ''Licence Expiry 19 JAN 2029 Date of Birth 20 AUG 1976''"

text \<open>
  The text of a one-page document as \<^verbatim>\<open>processDocument\<close> aggregates it: a page header, then
  the cleaned text of the page.
\<close>

definition invoice_page :: string where
  "invoice_page = [CHR 0x0A] @ ''=== Page 1 ==='' @ [CHR 0x0A] @ ''Invoice Number A-1234''
                  @ [CHR 0x0A]"
section \<open>Facts about the raster operations\<close>

subsection \<open>Writes of the filter loops\<close>

lemma length_put_px [simp]: "length (put_px idx r g b a out) = length out"
  by (simp add: put_px_def)

lemma put_px_nth_other:
  assumes "\<not> (idx \<le> i \<and> i < idx + 4)"
  shows "put_px idx r g b a out ! i = out ! i"
proof -
  have "i \<noteq> idx" "i \<noteq> idx + 1" "i \<noteq> idx + 2" "i \<noteq> idx + 3"
    using assms by linarith+
  then show ?thesis by (simp add: put_px_def)
qed

lemma put_px_nth_hit:
  assumes "idx + 3 < length out" and "c < 4"
  shows "put_px idx r g b a out ! (idx + c) = [r, g, b, a] ! c"
proof -
  from assms consider "c = 0" | "c = 1" | "c = 2" | "c = 3" by linarith
  then show ?thesis using assms by cases (simp_all add: put_px_def)
qed

lemma fold_put_length [simp]:
  "length (fold (\<lambda>p. put_px (key p) (R p) (G p) (B p) (A p)) ps out) = length out"
  by (induction ps arbitrary: out) simp_all

lemma fold_put_miss:
  "(\<And>p. p \<in> set ps \<Longrightarrow> \<not> (key p \<le> i \<and> i < key p + 4)) \<Longrightarrow>
   fold (\<lambda>p. put_px (key p) (R p) (G p) (B p) (A p)) ps out ! i = out ! i"
  by (induction ps arbitrary: out) (simp_all add: put_px_nth_other)

lemma fold_put_hit:
  assumes "distinct (map key ps)" and "\<And>q. q \<in> set ps \<Longrightarrow> 4 dvd key q"
    and "p \<in> set ps" and "c < 4" and "key p + 3 < length out"
  shows "fold (\<lambda>p. put_px (key p) (R p) (G p) (B p) (A p)) ps out ! (key p + c)
         = [R p, G p, B p, A p] ! c"
  using assms
proof (induction ps arbitrary: out)
  case Nil
  then show ?case by simp
next
  case (Cons q qs)
  show ?case
  proof (cases "q = p")
    case True
    have "\<not> (key r \<le> key p + c \<and> key p + c < key r + 4)" if r: "r \<in> set qs" for r
    proof
      assume b: "key r \<le> key p + c \<and> key p + c < key r + 4"
      have "key r \<noteq> key p" using Cons.prems(1) r True by (auto simp: image_iff)
      moreover have "4 dvd key r" "4 dvd key p" using Cons.prems(2) r True by auto
      ultimately show False using b \<open>c < 4\<close> by (auto simp: dvd_def)
    qed
    then have "fold (\<lambda>p. put_px (key p) (R p) (G p) (B p) (A p)) qs
                 (put_px (key p) (R p) (G p) (B p) (A p) out) ! (key p + c)
               = put_px (key p) (R p) (G p) (B p) (A p) out ! (key p + c)"
      by (rule fold_put_miss)
    also have "\<dots> = [R p, G p, B p, A p] ! c"
      using Cons.prems(4,5) by (rule put_px_nth_hit[rotated])
    finally show ?thesis using True by simp
  next
    case False
    then have "p \<in> set qs" using Cons.prems(3) by simp
    then show ?thesis
      using Cons.prems Cons.IH[of "put_px (key q) (R q) (G q) (B q) (A q) out"] by simp
  qed
qed

lemma interior_iff:
  "(y, x) \<in> set (interior m w h) \<longleftrightarrow> m \<le> y \<and> y < h - m \<and> m \<le> x \<and> x < w - m"
  by (auto simp: interior_def)

lemma pidx_inj:
  assumes "pidx w (y, x) = pidx w (y', x')" and "x < w" and "x' < w"
  shows "y = y' \<and> x = x'"
proof -
  from assms(1) have e: "y * w + x = y' * w + x'" by (simp add: pidx_def)
  have "(y * w + x) div w = y" "(y' * w + x') div w = y'" using assms(2,3) by simp_all
  with e have "y = y'" by simp
  with e show ?thesis by simp
qed

lemma interior_distinct: "distinct (map (pidx w) (interior m w h))"
proof -
  have "distinct (interior m w h)" by (simp add: interior_def distinct_product)
  moreover have "inj_on (pidx w) (set (interior m w h))"
  proof (rule inj_onI)
    fix p q assume a: "p \<in> set (interior m w h)" "q \<in> set (interior m w h)" "pidx w p = pidx w q"
    obtain y x y' x' where pq: "p = (y, x)" "q = (y', x')" by (cases p, cases q) blast
    with a have "x < w" "x' < w" by (auto simp: interior_iff)
    with a(3) pq show "p = q" using pidx_inj[of w y x y' x'] by simp
  qed
  ultimately show ?thesis by (simp add: distinct_map)
qed

lemma pidx_dvd: "4 dvd pidx w p"
  by (cases p) (simp add: pidx_def)

lemma pidx_bound:
  assumes "y < h" and "x < w"
  shows "pidx w (y, x) + 3 < w * h * 4"
proof -
  have "y * w + x < y * w + w" using assms(2) by simp
  also have "\<dots> = (y + 1) * w" by simp
  also have "\<dots> \<le> h * w" using assms(1) by (intro mult_le_mono1) simp
  finally have "y * w + x + 1 \<le> w * h" by (simp add: mult.commute)
  then have "(y * w + x + 1) * 4 \<le> w * h * 4" by simp
  then show ?thesis by (simp add: pidx_def)
qed


lemma filter_at:
  assumes "p \<in> set (interior m w h)" and "pidx w p + 3 < n" and "c < 4"
  shows "fold (\<lambda>p. put_px (pidx w p) (R p) (G p) (B p) (A p)) (interior m w h) (replicate n 0)
           ! (pidx w p + c) = [R p, G p, B p, A p] ! c"
  using interior_distinct pidx_dvd assms(1,3) 
  by (rule fold_put_hit) (use assms(2) in simp)

lemma filter_border:
  assumes "(y, x) \<notin> set (interior m w h)" and "x < w" and "c < 4" and "pidx w (y, x) + c < n"
  shows "fold (\<lambda>p. put_px (pidx w p) (R p) (G p) (B p) (A p)) (interior m w h) (replicate n 0)
           ! (pidx w (y, x) + c) = 0"
proof -
  have "\<not> (pidx w p \<le> pidx w (y, x) + c \<and> pidx w (y, x) + c < pidx w p + 4)"
    if p: "p \<in> set (interior m w h)" for p
  proof
    assume b: "pidx w p \<le> pidx w (y, x) + c \<and> pidx w (y, x) + c < pidx w p + 4"
    obtain y' x' where q: "p = (y', x')" by (cases p)
    have "4 dvd pidx w p" "4 dvd pidx w (y, x)" by (rule pidx_dvd)+
    with b \<open>c < 4\<close> have "pidx w (y', x') = pidx w (y, x)" unfolding q by (auto simp: dvd_def)
    moreover have "x' < w" using p q by (auto simp: interior_iff)
    ultimately have "p = (y, x)" using pidx_inj[of w y' x' y x] assms(2) q by simp
    with p assms(1) show False by simp
  qed
  then have "fold (\<lambda>p. put_px (pidx w p) (R p) (G p) (B p) (A p)) (interior m w h) (replicate n 0)
           ! (pidx w (y, x) + c) = replicate n 0 ! (pidx w (y, x) + c)"
    by (rule fold_put_miss)
  then show ?thesis using assms(4) by simp
qed

subsection \<open>Morphological opening\<close>

lemma store_fold_js_min_zero:
  "store a = 0 \<or> (\<exists>q \<in> set ps. f q = Some 0) \<Longrightarrow>
   store (fold (\<lambda>p acc. js_min acc (f p)) ps a) = 0"
proof (induction ps arbitrary: a)
  case Nil
  then show ?case by simp
next
  case (Cons p ps)
  have "store (js_min a (f p)) = 0 \<or> (\<exists>q \<in> set ps. f q = Some 0)"
    using Cons.prems by (auto simp: store_def js_min_def split: option.splits)
  then show ?case using Cons.IH by simp
qed

lemma minValue_zero:
  assumes "(ky, kx) \<in> set (window 1)" and "rd data (nidx 1 w y x ky kx) = Some 0"
  shows "store (minValue data w (y, x)) = 0"
proof -
  have "store (fold (\<lambda>p acc. js_min acc (rd data (nidx 1 w y x (fst p) (snd p))))
                (window 1) (Some 255)) = 0"
    by (rule store_fold_js_min_zero) (use assms in force)
  then show ?thesis by (simp add: minValue_def case_prod_unfold)
qed

lemma fold_js_max_zero:
  "(\<And>q. q \<in> set ps \<Longrightarrow> f q = Some 0) \<Longrightarrow> fold (\<lambda>p acc. js_max acc (f p)) ps (Some 0) = Some 0"
  by (induction ps) (simp_all add: js_max_def)

lemma maxValue_zero:
  assumes "\<And>ky kx. (ky, kx) \<in> set (window 1) \<Longrightarrow> rd data (nidx 1 w y x ky kx) = Some 0"
  shows "maxValue data w (y, x) = Some 0"
proof -
  have "fold (\<lambda>p acc. js_max acc (rd data (nidx 1 w y x (fst p) (snd p))))
          (window 1) (Some 0) = Some 0"
    by (rule fold_js_max_zero) (use assms in force)
  then show ?thesis by (simp add: maxValue_def case_prod_unfold)
qed

lemma window1_iff [simp]: "(ky, kx) \<in> set (window (Suc 0)) \<longleftrightarrow> ky < 3 \<and> kx < 3"
  by (auto simp: window_def)

lemma window1_list:
  "window 1 = [(0, 0), (0, 1), (0, 2), (1, 0), (1, 1), (1, 2), (2, 0), (2, 1), (2, 2)]"
  by code_simp

lemma nidx_pidx: "nidx m w y x ky kx = pidx w (y + ky - m, x + kx - m)"
  by (simp add: nidx_def pidx_def)


lemma erosion_zero_at:
  assumes len: "length data = w * h * 4"
    and pos: "1 \<le> y" "y + 1 < h" "1 \<le> x" "x + 1 < w"
    and j: "jy < 3" "jx < 3"
    and z: "data ! nidx 1 w y x jy jx = 0"
  shows "rd (applyErosion data w h) (pidx w (y, x)) = Some 0"
proof -
  have inh: "(y, x) \<in> set (interior 1 w h)" using pos by (auto simp: interior_iff)
  have inr: "pidx w (y, x) + 3 < length data"
    unfolding len using pos by (intro pidx_bound) auto
  have "pidx w (y + jy - 1, x + jx - 1) + 3 < length data"
    unfolding len using pos j by (intro pidx_bound) auto
  then have "rd data (nidx 1 w y x jy jx) = Some 0"
    using z by (simp add: rd_def nidx_pidx)
  moreover have "(jy, jx) \<in> set (window 1)" using j by simp
  ultimately have "store (minValue data w (y, x)) = 0" by (rule minValue_zero[rotated])
  moreover have "applyErosion data w h ! (pidx w (y, x) + 0) = store (minValue data w (y, x))"
    unfolding applyErosion_def using filter_at[OF inh inr, of 0] by simp
  ultimately show ?thesis using inr by (simp add: rd_def applyErosion_def)
qed

lemma opening_zero:
  assumes len: "length data = w * h * 4"
    and pos: "2 \<le> y" "y + 2 < h" "2 \<le> x" "x + 2 < w"
    and z: "\<And>ky kx. ky < 3 \<Longrightarrow> kx < 3 \<Longrightarrow>
              \<exists>jy jx. jy < 3 \<and> jx < 3 \<and> data ! nidx 1 w (y + ky - 1) (x + kx - 1) jy jx = 0"
    and c: "c < 3"
  shows "applyMorphologicalCleaning data w h ! (pidx w (y, x) + c) = 0"
proof -
  let ?e = "applyErosion data w h"
  have inh: "(y, x) \<in> set (interior 1 w h)" using pos by (auto simp: interior_iff)
  have inr: "pidx w (y, x) + 3 < length ?e"
    unfolding applyErosion_def fold_put_length length_replicate len
    using pos by (intro pidx_bound) auto
  have "maxValue ?e w (y, x) = Some 0"
  proof (rule maxValue_zero)
    fix ky kx assume "(ky, kx) \<in> set (window 1)"
    then have k: "ky < 3" "kx < 3" by simp_all
    from z[OF k] obtain jy jx where j: "jy < 3" "jx < 3"
      and d: "data ! nidx 1 w (y + ky - 1) (x + kx - 1) jy jx = 0" by blast
    have "rd ?e (pidx w (y + ky - 1, x + kx - 1)) = Some 0"
      using len _ _ _ _ j d by (rule erosion_zero_at) (use pos k in auto)
    then show "rd ?e (nidx 1 w y x ky kx) = Some 0" by (simp add: nidx_pidx)
  qed
  then have m: "store (maxValue ?e w (y, x)) = 0" by (simp add: store_def)
  have "c < 4" using c by simp
  then have d: "applyDilation ?e w h ! (pidx w (y, x) + c)
             = [store (maxValue ?e w (y, x)), store (maxValue ?e w (y, x)),
                store (maxValue ?e w (y, x)), store (rd ?e (pidx w (y, x) + 3))] ! c"
    unfolding applyDilation_def by (rule filter_at[OF inh inr])
  from c consider "c = 0" | "c = 1" | "c = 2" by linarith
  then have "[store (maxValue ?e w (y, x)), store (maxValue ?e w (y, x)),
              store (maxValue ?e w (y, x)), store (rd ?e (pidx w (y, x) + 3))] ! c = 0"
    by cases (simp_all add: m)
  with d show ?thesis by (simp add: applyMorphologicalCleaning_def)
qed

text \<open>
  Claim C3. The thresholding step calls 255 the foreground (its bias comment counts a
  pixel brighter than the threshold as foreground) and 0 the background. In an image with
  \<open>width * height\<close> pixels, take a pixel \<open>(y, x)\<close> at least two rows and columns away from
  every border, so that its whole 3 by 3 neighbourhood is interior for erosion and for
  dilation. If the pixel holds 255 on the thresholded channel and its eight neighbours
  hold 0, then after the opening (erosion, then dilation) the pixel holds 0 on its three
  colour channels.
\<close>

theorem opening_erases_isolated_pixel:
  assumes len: "length data = width * height * 4"
    and pos: "2 \<le> y" "y + 2 < height" "2 \<le> x" "x + 2 < width"
    and fg: "data ! pidx width (y, x) = 255"
    and bg: "\<forall>(ky, kx) \<in> set (window 1).
               (ky, kx) \<noteq> (1, 1) \<longrightarrow> data ! nidx 1 width y x ky kx = 0"
  shows "applyMorphologicalCleaning data width height ! pidx width (y, x) = 0
       \<and> applyMorphologicalCleaning data width height ! (pidx width (y, x) + 1) = 0
       \<and> applyMorphologicalCleaning data width height ! (pidx width (y, x) + 2) = 0"
proof -
  have z: "\<exists>jy jx. jy < 3 \<and> jx < 3
             \<and> data ! nidx 1 width (y + ky - 1) (x + kx - 1) jy jx = 0"
    if k: "ky < 3" "kx < 3" for ky kx
  proof (cases "(ky, kx) = (1, 1)")
    case True
    have "data ! nidx 1 width y x 0 0 = 0" using bg by auto
    with True show ?thesis by (intro exI[of _ 0]) simp
  next
    case False
    have "nidx 1 width (y + ky - 1) (x + kx - 1) 1 1 = nidx 1 width y x ky kx"
      using pos by (simp add: nidx_def)
    moreover have "data ! nidx 1 width y x ky kx = 0" using bg False k by auto
    ultimately show ?thesis by (intro exI[of _ 1]) simp
  qed
  from opening_zero[OF len pos z, of 0] opening_zero[OF len pos z, of 1]
    opening_zero[OF len pos z, of 2]
  show ?thesis by simp
qed

text \<open>The 5 by 5 image \<open>speck\<close> meets every hypothesis at its middle pixel.\<close>

theorem opening_erases_isolated_pixel_witness:
  "length speck = 5 * 5 * 4 \<and> speck ! pidx 5 (2, 2) = 255
   \<and> applyMorphologicalCleaning speck 5 5 ! pidx 5 (2, 2) = 0
   \<and> applyMorphologicalCleaning speck 5 5 ! (pidx 5 (2, 2) + 1) = 0
   \<and> applyMorphologicalCleaning speck 5 5 ! (pidx 5 (2, 2) + 2) = 0"
proof -
  have r: "replicate 12 x = [x, x, x, x, x, x, x, x, x, x, x, x]" for x :: "nat list"
    by (simp add: numeral_eq_Suc)
  have l: "length speck = 5 * 5 * 4" by (simp add: speck_def r)
  have f: "speck ! pidx 5 (2, 2) = 255" by (simp add: speck_def pidx_def r)
  have b: "\<forall>(ky, kx) \<in> set (window 1). (ky, kx) \<noteq> (1, 1) \<longrightarrow> speck ! nidx 1 5 2 2 ky kx = 0"
    by (simp add: window1_list[unfolded One_nat_def] nidx_def speck_def r)
  from opening_erases_isolated_pixel[OF l _ _ _ _ f b] l f show ?thesis by simp
qed

text \<open>
  The opposite polarity: a pixel that holds 0 lies in the window of each of its
  neighbours, so erosion spreads it over its neighbourhood and dilation leaves it at 0.
  An isolated dark pixel on a bright ground is not removed.
\<close>

lemma opening_keeps_dark_pixel:
  assumes len: "length data = width * height * 4"
    and pos: "2 \<le> y" "y + 2 < height" "2 \<le> x" "x + 2 < width"
    and dark: "data ! pidx width (y, x) = 0"
  shows "applyMorphologicalCleaning data width height ! pidx width (y, x) = 0"
proof -
  have z: "\<exists>jy jx. jy < 3 \<and> jx < 3
             \<and> data ! nidx 1 width (y + ky - 1) (x + kx - 1) jy jx = 0"
    if k: "ky < 3" "kx < 3" for ky kx
  proof -
    have "nidx 1 width (y + ky - 1) (x + kx - 1) (2 - ky) (2 - kx) = pidx width (y, x)"
      using pos k by (simp add: nidx_pidx)
    with dark show ?thesis by (intro exI[of _ "2 - ky"] exI[of _ "2 - kx"]) auto
  qed
  from opening_zero[OF len pos z, of 0] show ?thesis by simp
qed

subsection \<open>Border pixels\<close>

text \<open>
  Each of the three filters writes into a fresh zero-filled buffer and visits interior
  positions only, so a border pixel of the output is 0 on all four channels, whatever
  the input held there.
\<close>

lemma erosion_border_zero:
  assumes "(y, x) \<notin> set (interior 1 w h)" and "x < w" and "c < 4"
    and "pidx w (y, x) + c < length data"
  shows "applyErosion data w h ! (pidx w (y, x) + c) = 0"
  unfolding applyErosion_def using assms by (rule filter_border)

lemma dilation_border_zero:
  assumes "(y, x) \<notin> set (interior 1 w h)" and "x < w" and "c < 4"
    and "pidx w (y, x) + c < length data"
  shows "applyDilation data w h ! (pidx w (y, x) + c) = 0"
  unfolding applyDilation_def using assms by (rule filter_border)

lemma sharpening_border_zero:
  assumes "(y, x) \<notin> set (interior 1 w h)" and "x < w" and "c < 4"
    and "pidx w (y, x) + c < length data"
  shows "applyDocumentSharpening data w h ! (pidx w (y, x) + c) = 0"
  unfolding applyDocumentSharpening_def using assms by (rule filter_border)

text \<open>
  Claim C4 says that erosion, dilation and sharpening leave every border pixel as it was
  in their input. On the 3 by 3 image whose 36 channel values are all 255, the top left
  pixel (a border pixel) comes out of each of the three filters with red channel 0 and
  alpha channel 0.
\<close>

theorem filters_zero_the_border:
  "applyErosion (replicate 36 255) 3 3 ! 0 = 0 \<and>
   applyErosion (replicate 36 255) 3 3 ! 3 = 0 \<and>
   applyDilation (replicate 36 255) 3 3 ! 0 = 0 \<and>
   applyDilation (replicate 36 255) 3 3 ! 3 = 0 \<and>
   applyDocumentSharpening (replicate 36 255) 3 3 ! 0 = 0 \<and>
   applyDocumentSharpening (replicate 36 255) 3 3 ! 3 = 0"
  by code_simp


subsection \<open>Adaptive thresholding\<close>

lemma length_uniform [simp]: "length (uniform w h g) = w * h * 4"
  by (simp add: uniform_def length_concat sum_list_replicate)

lemma concat_replicate_nth:
  "i < length xs * n \<Longrightarrow> concat (replicate n xs) ! i = xs ! (i mod length xs)"
proof (induction n arbitrary: i)
  case 0
  then show ?case by simp
next
  case (Suc n)
  show ?case
  proof (cases "i < length xs")
    case True
    then show ?thesis by (simp add: nth_append)
  next
    case False
    then have "i - length xs < length xs * n" using Suc.prems by simp
    from Suc.IH[OF this] False show ?thesis
      by (simp add: nth_append le_mod_geq)
  qed
qed

lemma concat_replicate4_nth:
  "i < 4 * n \<Longrightarrow> concat (replicate n [a, b, c, d]) ! i = [a, b, c, d] ! (i mod 4)"
  using concat_replicate_nth[of i "[a, b, c, d]" n] by simp

lemma uniform_nth4:
  assumes "k < w * h" and "c < 4"
  shows "uniform w h g ! (4 * k + c) = [g, g, g, 255] ! c"
proof -
  have "4 * k + c < 4 * (w * h)" using assms by simp
  then have "uniform w h g ! (4 * k + c) = [g, g, g, 255] ! ((4 * k + c) mod 4)"
    unfolding uniform_def by (rule concat_replicate4_nth)
  then show ?thesis using assms(2) by simp
qed

lemma gray_at_uniform:
  assumes "k < w * h"
  shows "gray_at (uniform w h g) (4 * k) = min (luma g g g) 255"
proof -
  have "4 * k + 2 < length (uniform w h g)" using assms by simp
  then have "rd (uniform w h g) (4 * k) = Some g" "rd (uniform w h g) (4 * k + 1) = Some g"
    "rd (uniform w h g) (4 * k + 2) = Some g"
    using uniform_nth4[OF assms, of 0 g] uniform_nth4[OF assms, of 1 g]
      uniform_nth4[OF assms, of 2 g] by (simp_all add: rd_def)
  then show ?thesis by (simp add: gray_at_def)
qed

lemma length_put3 [simp]: "length (put3 idx v out) = length out"
  by (simp add: put3_def)

lemma length_paint [simp]: "length (paint w v ps out) = length out"
  by (induction ps arbitrary: out) (simp_all add: paint_def)

lemma put3_nth:
  "put3 idx v out ! i = (if idx \<le> i \<and> i < idx + 3 \<and> i < length out then v else out ! i)"
proof (cases "idx \<le> i \<and> i < idx + 3")
  case True
  then consider "i = idx" | "i = idx + 1" | "i = idx + 2" by linarith
  then show ?thesis by cases (auto simp: put3_def nth_list_update list_update_beyond)
next
  case False
  then have "i \<noteq> idx" "i \<noteq> idx + 1" "i \<noteq> idx + 2" by linarith+
  with False show ?thesis by (simp add: put3_def)
qed

lemma threshold_px_put3:
  "threshold_px w p out = put3 (pidx w p) (binaryValue (rd out (pidx w p)) (localSum out w p)) out"
  by (simp add: threshold_px_def put3_def Let_def)

lemma length_threshold_px [simp]: "length (threshold_px w p out) = length out"
  by (simp add: threshold_px_put3)

lemma pidx_eq_iff:
  "x < w \<Longrightarrow> x' < w \<Longrightarrow> pidx w (y, x) = pidx w (y', x') \<longleftrightarrow> (y, x) = (y', x')"
  using pidx_inj[of w y x y' x'] by auto

lemma pidx_window_iff:
  assumes "x < w" "x' < w"
  shows "pidx w (y, x) \<le> pidx w (y', x') \<and> pidx w (y', x') < pidx w (y, x) + 3
         \<longleftrightarrow> (y, x) = (y', x')"
proof -
  have "4 dvd pidx w (y, x)" "4 dvd pidx w (y', x')" by (rule pidx_dvd)+
  then have "pidx w (y, x) \<le> pidx w (y', x') \<and> pidx w (y', x') < pidx w (y, x) + 3
         \<longleftrightarrow> pidx w (y, x) = pidx w (y', x')"
    by (auto simp: dvd_def)
  then show ?thesis using assms by (simp add: pidx_eq_iff)
qed

lemma paint_nth:
  assumes "\<And>p. p \<in> set ps \<Longrightarrow> snd p < w \<and> pidx w p < length out"
    and "x < w"
  shows "paint w v ps out ! pidx w (y, x)
         = (if (y, x) \<in> set ps then v else out ! pidx w (y, x))"
  using assms(1)
proof (induction ps arbitrary: out)
  case Nil
  then show ?case by (simp add: paint_def)
next
  case (Cons p ps)
  obtain py px where p: "p = (py, px)" by (cases p)
  have pw: "px < w" "pidx w (py, px) < length out" using Cons.prems[of p] p by auto
  have "paint w v (p # ps) out = paint w v ps (put3 (pidx w p) v out)"
    by (simp add: paint_def)
  also have "\<dots> ! pidx w (y, x)
      = (if (y, x) \<in> set ps then v else put3 (pidx w p) v out ! pidx w (y, x))"
    by (rule Cons.IH) (use Cons.prems in auto)
  also have "put3 (pidx w p) v out ! pidx w (y, x)
      = (if (y, x) = p then v else out ! pidx w (y, x))"
    unfolding put3_nth p using pidx_window_iff[OF pw(1) assms(2), of py y] pw(2) by auto
  finally show ?case by auto
qed

lemma fold_js_add_sum:
  "(\<And>q. q \<in> set qs \<Longrightarrow> f q < length out) \<Longrightarrow>
   fold (\<lambda>q s. js_add s (rd out (f q))) qs (Some a) = Some (a + sum_list (map (\<lambda>q. out ! f q) qs))"
  by (induction qs arbitrary: a) (simp_all add: js_add_def rd_def)

lemma localSum_sum:
  assumes "\<And>q. q \<in> set (window 7) \<Longrightarrow> nidx 7 w y x (fst q) (snd q) < length out"
  shows "localSum out w (y, x)
         = Some (sum_list (map (\<lambda>q. out ! nidx 7 w y x (fst q) (snd q)) (window 7)))"
proof -
  have "fold (\<lambda>q s. js_add s (rd out (nidx 7 w y x (fst q) (snd q)))) (window 7) (Some 0)
        = Some (0 + sum_list (map (\<lambda>q. out ! nidx 7 w y x (fst q) (snd q)) (window 7)))"
    using assms by (rule fold_js_add_sum)
  then show ?thesis by (simp add: localSum_def case_prod_unfold)
qed

lemma sum_list_indicator:
  "sum_list (map (\<lambda>q. if P q then c else (0::nat)) xs) = c * length (filter P xs)"
  by (induction xs) simp_all

lemma window7_iff: "(wy, wx) \<in> set (window 7) \<longleftrightarrow> wy < 15 \<and> wx < 15"
  by (auto simp: window_def)

lemma count_in_window:
  assumes "7 \<le> y" "7 \<le> x" "distinct S"
    and "\<And>q. q \<in> set S \<Longrightarrow> y \<le> fst q + 7 \<and> fst q \<le> y + 7 \<and> x \<le> snd q + 7 \<and> snd q \<le> x + 7"
  shows "length (filter (\<lambda>q. (y + fst q - 7, x + snd q - 7) \<in> set S) (window 7)) = length S"
proof -
  let ?pos = "\<lambda>q. (y + fst q - 7, x + snd q - 7)"
  have dw: "distinct (window 7)" by (simp add: window_def distinct_product)
  have inj: "inj_on ?pos (set (window 7))"
    using assms(1,2) by (auto simp: inj_on_def)
  have "length (filter (\<lambda>q. ?pos q \<in> set S) (window 7))
        = card {q \<in> set (window 7). ?pos q \<in> set S}"
    using distinct_card[of "filter (\<lambda>q. ?pos q \<in> set S) (window 7)"] dw by simp
  also have "\<dots> = card (?pos ` {q \<in> set (window 7). ?pos q \<in> set S})"
    by (rule card_image[symmetric]) (rule inj_on_subset[OF inj], auto)
  also have "?pos ` {q \<in> set (window 7). ?pos q \<in> set S} = set S"
  proof (rule set_eqI, rule iffI)
    fix r assume "r \<in> ?pos ` {q \<in> set (window 7). ?pos q \<in> set S}"
    then show "r \<in> set S" by auto
  next
    fix r assume r: "r \<in> set S"
    let ?q = "(fst r + 7 - y, snd r + 7 - x)"
    have "?q \<in> set (window 7)" using assms(4)[OF r] by (auto simp: window7_iff)
    moreover have "?pos ?q = r" using assms(4)[OF r] by (cases r) auto
    ultimately show "r \<in> ?pos ` {q \<in> set (window 7). ?pos q \<in> set S}"
      using r by (metis (mono_tags, lifting) image_eqI mem_Collect_eq)
  qed
  also have "card (set S) = length S" using assms(3) by (rule distinct_card)
  finally show ?thesis .
qed


lemma binaryValue_nat:
  "binaryValue (Some g) (Some s) = (if s < 225 * (g + 10) then 255 else 0)"
proof -
  have "(of_nat g :: rat) > of_nat s / 225 - 10 \<longleftrightarrow> (of_nat s :: rat) < of_nat (225 * (g + 10))"
    by (simp add: field_simps)
  also have "\<dots> \<longleftrightarrow> s < 225 * (g + 10)" by (rule of_nat_less_iff)
  finally show ?thesis by (simp add: binaryValue_def)
qed

lemma localSum_paint:
  assumes len: "length U = w * h * 4"
    and zero: "\<And>y x. y < h \<Longrightarrow> x < w \<Longrightarrow> U ! pidx w (y, x) = 0"
    and p: "7 \<le> y" "y + 7 < h" "7 \<le> x" "x + 7 < w"
    and S: "distinct S" "\<And>q. q \<in> set S \<Longrightarrow> near (y, x) q"
  shows "localSum (paint w v S U) w (y, x) = Some (v * length S)"
proof -
  let ?B = "paint w v S U"
  let ?pos = "\<lambda>q. (y + fst q - 7, x + snd q - 7)"
  have Sb: "snd q < w \<and> pidx w q < length U" if "q \<in> set S" for q
  proof -
    obtain qy qx where q: "q = (qy, qx)" by (cases q)
    have "qy < h" "qx < w" using S(2)[OF that] p q by (auto simp: near_def)
    then show ?thesis using pidx_bound[of qy h qx w] q len by simp
  qed
  have inw: "y + fst q - 7 < h \<and> x + snd q - 7 < w" if "q \<in> set (window 7)" for q
  proof -
    have "fst q < 15 \<and> snd q < 15" using that window7_iff[of "fst q" "snd q"] by simp
    then show ?thesis using p by auto
  qed
  have rng: "nidx 7 w y x (fst q) (snd q) < length ?B" if "q \<in> set (window 7)" for q
    using inw[OF that] pidx_bound[of "y + fst q - 7" h "x + snd q - 7" w] len
    by (simp add: nidx_pidx)
  have val: "?B ! nidx 7 w y x (fst q) (snd q) = (if ?pos q \<in> set S then v else 0)"
    if "q \<in> set (window 7)" for q
    unfolding nidx_pidx using paint_nth[of S w U "x + snd q - 7" v "y + fst q - 7"] Sb
      inw[OF that] zero by simp
  have "localSum ?B w (y, x) = Some (sum_list (map (\<lambda>q. ?B ! nidx 7 w y x (fst q) (snd q)) (window 7)))"
    using rng by (rule localSum_sum)
  also have "map (\<lambda>q. ?B ! nidx 7 w y x (fst q) (snd q)) (window 7)
             = map (\<lambda>q. if ?pos q \<in> set S then v else 0) (window 7)"
    by (rule map_cong[OF refl]) (rule val)
  also have "sum_list \<dots> = v * length (filter (\<lambda>q. ?pos q \<in> set S) (window 7))"
    by (rule sum_list_indicator)
  also have "length (filter (\<lambda>q. ?pos q \<in> set S) (window 7)) = length S"
    using p(1,3) S(1) by (rule count_in_window) (use S(2) in \<open>auto simp: near_def\<close>)
  finally show ?thesis .
qed

lemma paint_snoc: "paint w v (S @ [p]) U = put3 (pidx w p) v (paint w v S U)"
  by (simp add: paint_def)

lemma threshold_step:
  assumes len: "length U = w * h * 4"
    and zero: "\<And>y x. y < h \<Longrightarrow> x < w \<Longrightarrow> U ! pidx w (y, x) = 0"
    and p: "7 \<le> y" "y + 7 < h" "7 \<le> x" "x + 7 < w"
    and S: "distinct S" "\<And>q. q \<in> set S \<Longrightarrow> near (y, x) q"
  shows "threshold_px w (y, x) (paint w 255 S U)
         = put3 (pidx w (y, x))
             (if 255 * length S < 225 * ((if (y, x) \<in> set S then 255 else 0) + 10) then 255 else 0)
             (paint w 255 S U)"
proof -
  have Sb: "snd q < w \<and> pidx w q < length U" if "q \<in> set S" for q
  proof -
    obtain qy qx where q: "q = (qy, qx)" by (cases q)
    have "qy < h" "qx < w" using S(2)[OF that] p q by (auto simp: near_def)
    then show ?thesis using pidx_bound[of qy h qx w] q len by simp
  qed
  have b: "pidx w (y, x) < length U" using pidx_bound[of y h x w] p len by simp
  have "rd (paint w 255 S U) (pidx w (y, x)) = Some (if (y, x) \<in> set S then 255 else 0)"
    using paint_nth[of S w U x 255 y] Sb p zero[of y x] b by (simp add: rd_def)
  moreover have "localSum (paint w 255 S U) w (y, x) = Some (255 * length S)"
    using len zero p S by (rule localSum_paint)
  ultimately show ?thesis
    unfolding threshold_px_put3 by (simp add: binaryValue_nat)
qed

lemma threshold_run:
  assumes len: "length U = w * h * 4"
    and zero: "\<And>y x. y < h \<Longrightarrow> x < w \<Longrightarrow> U ! pidx w (y, x) = 0"
    and d: "distinct (S @ ps)"
    and i: "\<And>p. p \<in> set ps \<Longrightarrow> 7 \<le> fst p \<and> fst p + 7 < h \<and> 7 \<le> snd p \<and> snd p + 7 < w"
    and n: "\<And>p q. p \<in> set (S @ ps) \<Longrightarrow> q \<in> set (S @ ps) \<Longrightarrow> near p q"
    and l: "length S + length ps \<le> 9"
  shows "fold (threshold_px w) ps (paint w 255 S U) = paint w 255 (S @ ps) U"
  using d i n l
proof (induction ps arbitrary: S)
  case Nil
  then show ?case by simp
next
  case (Cons p ps)
  obtain y x where p: "p = (y, x)" by (cases p)
  have pi: "7 \<le> y" "y + 7 < h" "7 \<le> x" "x + 7 < w" using Cons.prems(2)[of p] p by auto
  have dS: "distinct S" and pS: "(y, x) \<notin> set S" using Cons.prems(1) p by auto
  have nS: "near (y, x) q" if "q \<in> set S" for q using Cons.prems(3)[of p q] that p by simp
  have "threshold_px w (y, x) (paint w 255 S U)
         = put3 (pidx w (y, x))
             (if 255 * length S < 225 * ((if (y, x) \<in> set S then 255 else 0) + 10) then 255 else 0)
             (paint w 255 S U)"
    using len zero pi dS nS by (rule threshold_step)
  then have "threshold_px w (y, x) (paint w 255 S U) = put3 (pidx w (y, x)) 255 (paint w 255 S U)"
    using pS Cons.prems(4) by simp
  then have "fold (threshold_px w) (p # ps) (paint w 255 S U)
             = fold (threshold_px w) ps (paint w 255 (S @ [p]) U)"
    by (simp add: p paint_snoc)
  also have "\<dots> = paint w 255 ((S @ [p]) @ ps) U"
    by (rule Cons.IH) (use Cons.prems in auto)
  finally show ?case by simp
qed

lemma length_grayscale [simp]: "length (grayscale data) = length data"
  by (simp add: grayscale_def)

text \<open>
  The grey value follows the arithmetic of the source: the exact weighted sum of the
  colour (0, 36, 12) is 22.5, its binary64 sum lies just below, and the pixel gets 22.
\<close>

lemma luma_binary64_sum: "luma 0 36 12 = 22"
  by code_simp

lemma grayscale_nth:
  assumes "4 * k + 3 < length data" and "c < 4"
  shows "grayscale data ! (4 * k + c)
         = [gray_at data (4 * k), gray_at data (4 * k), gray_at data (4 * k),
            store (rd data (4 * k + 3))] ! c"
proof -
  let ?ks = "map (\<lambda>k. 4 * k) [0..<(length data + 3) div 4]"
  have 1: "distinct (map (\<lambda>i. i) ?ks)" by (simp add: distinct_map inj_on_def)
  have 2: "4 dvd q" if "q \<in> set ?ks" for q using that by auto
  have 3: "4 * k \<in> set ?ks" using assms(1) by auto
  show ?thesis
    unfolding grayscale_def
    using fold_put_hit[of "\<lambda>i. i" ?ks "4 * k" c "replicate (length data) 0", OF 1 2 3 assms(2)]
      assms(1) by simp
qed

lemma grayscale_uniform_zero:
  assumes "y < h" and "x < w"
  shows "grayscale (uniform w h 0) ! pidx w (y, x) = 0"
proof -
  have b: "pidx w (y, x) + 3 < w * h * 4" using assms by (rule pidx_bound)
  then have k: "y * w + x < w * h" by (simp add: pidx_def)
  have "grayscale (uniform w h 0) ! (4 * (y * w + x) + 0) = gray_at (uniform w h 0) (4 * (y * w + x))"
    using grayscale_nth[of "y * w + x" "uniform w h 0" 0] b by (simp add: pidx_def mult.commute)
  also have "\<dots> = 0"
    unfolding gray_at_uniform[OF k]
    by (simp add: luma_def js_plus_def js_times_def binary64_def math_round_def)
  finally show ?thesis by (simp add: pidx_def mult.commute)
qed

lemma interior_16_19:
  "interior 7 16 19 = [(7, 7), (7, 8), (8, 7), (8, 8), (9, 7), (9, 8), (10, 7), (10, 8), (11, 7)] @ [(11, 8)]"
  by code_simp

text \<open>
  Claim C8 concludes that a uniformly grey image has a uniform interior after
  thresholding. The loop reads the buffer it is writing, so the window of a pixel
  holds the 255s already written for the pixels before it. On the black image of width
  16 and height 19 (ten interior pixels), the first interior pixel becomes 255 and the
  last one, which sees nine pixels at 255 in its window, becomes 0.
\<close>

theorem uniform_black_not_uniform:
  "applyAdaptiveThreshold (uniform 16 19 0) 16 19 ! pidx 16 (7, 7) = 255 \<and>
   applyAdaptiveThreshold (uniform 16 19 0) 16 19 ! pidx 16 (11, 8) = 0"
proof -
  let ?U = "grayscale (uniform 16 19 0)"
  let ?S = "[(7, 7), (7, 8), (8, 7), (8, 8), (9, 7), (9, 8), (10, 7), (10, 8), (11, 7)] :: (nat \<times> nat) list"
  have len: "length ?U = 16 * 19 * 4" by simp
  have zero: "?U ! pidx 16 (y, x) = 0" if "y < 19" "x < 16" for y x
    using that by (rule grayscale_uniform_zero)
  have run: "fold (threshold_px 16) ?S (paint 16 255 [] ?U) = paint 16 255 ([] @ ?S) ?U"
    by (rule threshold_run[OF len zero]) (auto simp: near_def)
  have last: "threshold_px 16 (11, 8) (paint 16 255 ?S ?U)
              = put3 (pidx 16 (11, 8)) 0 (paint 16 255 ?S ?U)"
    by (subst threshold_step[OF len zero]) (auto simp: near_def)
  have all: "applyAdaptiveThreshold (uniform 16 19 0) 16 19
             = put3 (pidx 16 (11, 8)) 0 (paint 16 255 ?S ?U)"
    unfolding applyAdaptiveThreshold_def interior_16_19 fold_append o_apply
    using run last by (simp add: paint_def)
  have a: "paint 16 255 ?S ?U ! pidx 16 (7, 7) = 255"
    by (subst paint_nth) (auto simp: pidx_def)
  show ?thesis
    unfolding all put3_nth using a by (simp add: pidx_def)
qed

section \<open>Evaluation of the model on concrete texts\<close>

text \<open>
  Concrete texts are evaluated by rewriting with the definitions. The continuation of the
  matcher is left alone until the matcher applies it (the congruence rule below), so that
  a pattern is unfolded along the text and not ahead of it.
\<close>

lemma rmatch_cong: "st = st' \<Longrightarrow> rmatch r st k = rmatch r st' k"
  by simp

lemma Rep_numeral: "Rep (numeral n) r = Seq r (Rep (pred_numeral n) r)"
  by (simp add: numeral_eq_Suc)

lemma UpTo_numeral: "UpTo (numeral n) r = Opt (Seq r (UpTo (pred_numeral n) r))"
  by (simp add: numeral_eq_Suc)

lemmas char_eval = is_digit_def is_upper_def is_lower_def is_alpha_def is_word_def is_space_def
  is_dot_def set_bit5_def lower_char_def toLowerCase_def upper_char_def toUpperCase_def
  ascii_upper_def ascii_lower_def icase_def trim_def

lemmas re_eval = Opt_def Plus_def Range_def AtLeast_def ch_def lit_def ich_def ilit_def
  dg_def sp_def wd_def up_def lw_def cap_def re_exec_def re_test_def re_replace_def
  re_replace_all_def re_match_all_def const_text_def collapse_ws_def
  word_before_def word_after_def Rep_numeral UpTo_numeral
  re_replace_from.simps re_match_from.simps

section \<open>Facts about recognition and classification\<close>

text \<open>
  Claim C5. With the engine as an oracle (\<open>first\<close> is the outcome of the first call,
  \<open>fallback\<close> the outcome the fallback call has if it is made):
  the fallback call is made exactly when the first call returned a confidence below 40;
  it is made at most once; when the first call returns, \<^verbatim>\<open>performOCR\<close> returns a result
  whose confidence is at least the first one's; and it returns the fallback's result
  only when the fallback's confidence is strictly greater than the first one's.
\<close>

theorem performOCR_fallback:
  "(FallbackRecognize \<in> set (snd (performOCR first fallback))
      \<longleftrightarrow> (\<exists>r. first = Inr r \<and> ocr_confidence r < 40))
   \<and> length (filter (\<lambda>c. c = FallbackRecognize) (snd (performOCR first fallback))) \<le> 1
   \<and> (\<forall>r. first = Inr r \<longrightarrow>
          (\<exists>res. fst (performOCR first fallback) = Inr res
             \<and> ocr_confidence r \<le> ocr_confidence res
             \<and> (res = \<lparr>ocr_text = cleanExtractedText (ocr_text r), ocr_confidence = ocr_confidence r\<rparr>
                \<or> (\<exists>f. fallback = Inr f \<and> ocr_confidence r < 40
                        \<and> ocr_confidence r < ocr_confidence f
                        \<and> res = \<lparr>ocr_text = cleanExtractedText (ocr_text f),
                                  ocr_confidence = ocr_confidence f\<rparr>))))"
  by (cases first; cases fallback)
     (auto simp: performOCR_def performFallbackOCR_def Let_def)

theorem performOCR_fallback_witness:
  "performOCR (Inr \<lparr>ocr_text = '''', ocr_confidence = 30\<rparr>) (Inr \<lparr>ocr_text = '''', ocr_confidence = 55\<rparr>)
     = (Inr \<lparr>ocr_text = cleanExtractedText '''', ocr_confidence = 55\<rparr>, [Recognize, FallbackRecognize])
   \<and> performOCR (Inr \<lparr>ocr_text = '''', ocr_confidence = 30\<rparr>) (Inr \<lparr>ocr_text = '''', ocr_confidence = 20\<rparr>)
     = (Inr \<lparr>ocr_text = cleanExtractedText '''', ocr_confidence = 30\<rparr>, [Recognize, FallbackRecognize])
   \<and> performOCR (Inr \<lparr>ocr_text = '''', ocr_confidence = 40\<rparr>) (Inr \<lparr>ocr_text = '''', ocr_confidence = 90\<rparr>)
     = (Inr \<lparr>ocr_text = cleanExtractedText '''', ocr_confidence = 40\<rparr>, [Recognize])"
  using performOCR_fallback[of "Inr \<lparr>ocr_text = '''', ocr_confidence = 30\<rparr>"
          "Inr \<lparr>ocr_text = '''', ocr_confidence = 55\<rparr>"]
  by (simp add: performOCR_def performFallbackOCR_def)

text \<open>
  Claim C6. \<^verbatim>\<open>detectDocumentType\<close> looks for its keywords in the lower-cased lines joined
  by spaces, in the order licence, invoice, passport, id, and answers with the first
  category that has a keyword in the text, or with \<^verbatim>\<open>generic\<close>. In particular a text with
  a licence keyword is a licence, whatever else it contains.
\<close>

theorem detectDocumentType_priority:
  "detectDocumentType lines =
     (if mentions licence_keywords lines then ''license''
      else if mentions invoice_keywords lines then ''invoice''
      else if mentions passport_keywords lines then ''passport''
      else if mentions id_keywords lines then ''id''
      else ''generic'')
   \<and> (mentions licence_keywords lines \<and> mentions invoice_keywords lines
        \<longrightarrow> detectDocumentType lines = ''license'')"
  by (simp add: detectDocumentType_def mentions_def licence_keywords_def invoice_keywords_def
      passport_keywords_def id_keywords_def Let_def)

section \<open>Facts about the matcher\<close>


lemma rmatch_Star_total: "rmatch (Star r) st Some \<noteq> None"
  by (simp split: option.splits)

lemma rmatch_Plus_Atom_Nil: "rmatch (Plus (Atom P)) (MState p [] g) Some = None"
  by (simp add: Plus_def)

lemma rmatch_Plus_Atom_fail:
  "\<not> P c \<Longrightarrow> rmatch (Plus (Atom P)) (MState p (c # cs) g) Some = None"
  by (simp add: Plus_def)

lemma rmatch_Plus_Atom_hit:
  assumes "P c"
  shows "\<exists>st'. rmatch (Plus (Atom P)) (MState p (c # cs) g) Some = Some st' \<and> suffix (rest st') cs"
proof -
  have e: "rmatch (Plus (Atom P)) (MState p (c # cs) g) Some
           = rmatch (Star (Atom P)) (MState (Some c) cs g) Some"
    using assms by (simp add: Plus_def del: rmatch.simps(5))
  obtain st' where s: "rmatch (Star (Atom P)) (MState (Some c) cs g) Some = Some st'"
    using rmatch_Star_total[of "Atom P" "MState (Some c) cs g"] by blast
  from rmatch_suffix[OF s] have "suffix (rest st') cs" by auto
  with e s show ?thesis by simp
qed

lemma re_find_Plus_Atom_None:
  "re_find (Plus (Atom P)) p s = None \<Longrightarrow> \<forall>c \<in> set s. \<not> P c"
proof (induction s arbitrary: p)
  case Nil
  then show ?case by simp
next
  case (Cons c cs)
  show ?case
  proof (cases "P c")
    case True
    from rmatch_Plus_Atom_hit[of P c p cs "\<lambda>n. None"] True Cons.prems show ?thesis by auto
  next
    case False
    with Cons.prems have "re_find (Plus (Atom P)) (Some c) cs = None"
      by (simp add: rmatch_Plus_Atom_fail split: option.splits)
    from Cons.IH[OF this] False show ?thesis by simp
  qed
qed

lemma re_find_Plus_Atom_Some:
  "re_find (Plus (Atom P)) p s = Some m \<Longrightarrow> (\<forall>c \<in> set (before m). \<not> P c) \<and> matched m \<noteq> []"
proof (induction s arbitrary: p m)
  case Nil
  then show ?case by (simp add: rmatch_Plus_Atom_Nil)
next
  case (Cons c cs)
  show ?case
  proof (cases "P c")
    case True
    from rmatch_Plus_Atom_hit[of P c p cs "\<lambda>n. None"] True obtain st'
      where s: "rmatch (Plus (Atom P)) (MState p (c # cs) (\<lambda>n. None)) Some = Some st'"
        and x: "suffix (rest st') cs" by blast
    from x have "length (rest st') \<le> length cs" by (rule suffix_length_le)
    then have "take (length (c # cs) - length (rest st')) (c # cs) \<noteq> []" by auto
    with s Cons.prems show ?thesis by auto
  next
    case False
    with Cons.prems obtain m' where m': "re_find (Plus (Atom P)) (Some c) cs = Some m'"
      and m: "m = Found (c # before m') (matched m') (caps m') (after m')"
      by (auto simp: rmatch_Plus_Atom_fail split: option.splits)
    from Cons.IH[OF m'] m False show ?thesis by simp
  qed
qed

text \<open>
  Replacing every run of characters of a class by a fixed text leaves a character of
  the class only where the fixed text has one.
\<close>

lemma replace_runs_chars:
  "c \<in> set (re_replace_from (Plus (Atom P)) (const_text t) p s) \<Longrightarrow> P c \<Longrightarrow> c \<in> set t"
proof (induction "Plus (Atom P)" "const_text t" p s rule: re_replace_from.induct)
  case (1 p s)
  show ?case
  proof (cases "re_find (Plus (Atom P)) p s")
    case None
    with "1.prems" re_find_Plus_Atom_None[OF None] show ?thesis
      by (simp add: re_replace_from.simps[of _ _ p s])
  next
    case (Some m)
    from re_find_Plus_Atom_Some[OF Some] have b: "\<forall>c \<in> set (before m). \<not> P c"
      and ne: "matched m \<noteq> []" by auto
    from "1.prems"(1) Some ne
    have "c \<in> set (before m) \<or> c \<in> set t
          \<or> c \<in> set (re_replace_from (Plus (Atom P)) (const_text t) (Some (last (matched m))) (after m))"
      by (simp add: re_replace_from.simps[of _ _ p s] const_text_def)
    with b "1.prems"(2) "1.hyps"(2)[OF Some ne] show ?thesis by auto
  qed
qed

text \<open>Replacing matches by the empty text only deletes characters.\<close>

lemma delete_matches_chars:
  "set (re_replace_from r (const_text []) p s) \<subseteq> set s"
proof (induction r "const_text ([] :: string)" p s rule: re_replace_from.induct)
  case (1 r p s)
  show ?case
  proof (cases "re_find r p s")
    case None
    then show ?thesis by (simp add: re_replace_from.simps[of r _ p s])
  next
    case (Some m)
    have u: "re_replace_from r (const_text []) p s
             = before m @
               (if matched m = [] then
                  (case after m of [] \<Rightarrow> []
                   | c # cs \<Rightarrow> c # re_replace_from r (const_text []) (Some c) cs)
                else re_replace_from r (const_text []) (Some (last (matched m))) (after m))"
      by (subst re_replace_from.simps) (simp add: Some const_text_def)
    have "s = before m @ matched m @ after m" using Some by (rule re_find_split)
    then have "set s = set (before m) \<union> set (matched m) \<union> set (after m)"
      by (metis set_append sup_assoc)
    then have s: "set (before m) \<subseteq> set s" "set (after m) \<subseteq> set s" by auto
    show ?thesis
    proof (cases "matched m = []")
      case True
      show ?thesis
      proof (cases "after m")
        case Nil
        with True s show ?thesis unfolding u by simp
      next
        case (Cons a as)
        from "1.hyps"(1)[OF Some True Cons]
        have "set (re_replace_from r (const_text []) (Some a) as) \<subseteq> set as" .
        with True Cons s show ?thesis unfolding u by auto
      qed
    next
      case False
      from "1.hyps"(2)[OF Some False]
      have "set (re_replace_from r (const_text []) (Some (last (matched m))) (after m))
            \<subseteq> set (after m)" .
      with False s show ?thesis unfolding u by auto
    qed
  qed
qed

lemma collapse_ws_no_line_feed: "CHR 0x0A \<notin> set (collapse_ws s)"
proof
  assume "CHR 0x0A \<in> set (collapse_ws s)"
  then have "CHR 0x0A \<in> set (re_replace_from (Plus (Atom is_space)) (const_text '' '') None s)"
    by (simp add: collapse_ws_def re_replace_all_def sp_def)
  moreover have "is_space (CHR 0x0A)" by (simp add: is_space_def)
  ultimately have "CHR 0x0A \<in> set '' ''" by (rule replace_runs_chars)
  then show False by simp
qed

lemma set_trim: "set (trim s) \<subseteq> set s"
proof
  fix x assume "x \<in> set (trim s)"
  then have "x \<in> set (dropWhile is_space (rev (dropWhile is_space s)))"
    by (simp add: trim_def)
  then have "x \<in> set (rev (dropWhile is_space s))" by (rule set_dropWhileD)
  then have "x \<in> set (dropWhile is_space s)" by simp
  then show "x \<in> set s" by (rule set_dropWhileD)
qed

lemma split_absent: "sep \<notin> set s \<Longrightarrow> split sep s = [s]"
  by (induction s) auto

lemma split_lines_single:
  "CHR 0x0A \<notin> set s \<Longrightarrow> split_lines s = (if trim s = [] then [] else [trim s])"
  by (simp add: split_lines_def split_absent)

lemma lines_of_single:
  "lines_of t = [] \<or> (\<exists>l. lines_of t = [l])"
proof -
  have "CHR 0x0A \<notin> set (trim (collapse_ws t))"
    using set_trim[of "collapse_ws t"] collapse_ws_no_line_feed[of t] by blast
  then show ?thesis unfolding lines_of_def by (simp add: split_lines_single)
qed

lemma clean_lines_single:
  "clean_lines t = [] \<or> (\<exists>l. clean_lines t = [l])"
proof -
  let ?d = "re_replace_all (Atom non_printable) (const_text '''') (collapse_ws t)"
  have "set ?d \<subseteq> set (collapse_ws t)"
    unfolding re_replace_all_def by (rule delete_matches_chars)
  then have "CHR 0x0A \<notin> set (trim ?d)"
    using set_trim[of ?d] collapse_ws_no_line_feed[of t] by blast
  then show ?thesis unfolding clean_lines_def by (simp add: split_lines_single)
qed

section \<open>Facts about the document structure\<close>

lemma context_of_single: "i < length lines \<Longrightarrow> length lines \<le> 1 \<Longrightarrow> context_of lines i = []"
  by (cases lines) (auto simp: context_of_def)

lemma structure_of_few_lines:
  assumes "lines = [] \<or> (\<exists>l. lines = [l])"
  shows "single_or_empty lines (headerSection (analyzeDocumentStructure lines))
   \<and> single_or_empty lines (cardSection (analyzeDocumentStructure lines))
   \<and> single_or_empty lines (addressSection (analyzeDocumentStructure lines))
   \<and> single_or_empty lines (classSection (analyzeDocumentStructure lines))
   \<and> single_or_empty lines (dateSection (analyzeDocumentStructure lines))
   \<and> single_or_empty lines (feeSection (analyzeDocumentStructure lines))
   \<and> list_all (\<lambda>lc. lc_context lc = []) (lineContexts (analyzeDocumentStructure lines))"
  using assms
  by (auto simp: analyzeDocumentStructure_def single_or_empty_def context_of_def)

text \<open>
  Claim C10. \<^verbatim>\<open>extractFields\<close> and \<^verbatim>\<open>cleanExtractedText\<close> replace every run of white
  space, line feeds included, by one space before they split the text at line feeds. So
  the list of lines has at most one element, for every text; each section of the document
  structure is empty or is the whole list of lines (the one line), and the context of
  every line is empty.
\<close>

theorem at_most_one_line:
  "length (lines_of text') \<le> 1
   \<and> length (clean_lines text') \<le> 1
   \<and> single_or_empty (lines_of text') (headerSection (analyzeDocumentStructure (lines_of text')))
   \<and> single_or_empty (lines_of text') (cardSection (analyzeDocumentStructure (lines_of text')))
   \<and> single_or_empty (lines_of text') (addressSection (analyzeDocumentStructure (lines_of text')))
   \<and> single_or_empty (lines_of text') (classSection (analyzeDocumentStructure (lines_of text')))
   \<and> single_or_empty (lines_of text') (dateSection (analyzeDocumentStructure (lines_of text')))
   \<and> single_or_empty (lines_of text') (feeSection (analyzeDocumentStructure (lines_of text')))
   \<and> list_all (\<lambda>lc. lc_context lc = [])
         (lineContexts (analyzeDocumentStructure (lines_of text')))"
proof -
  have 1: "length (lines_of text') \<le> 1" using lines_of_single[of text'] by auto
  have 2: "length (clean_lines text') \<le> 1" using clean_lines_single[of text'] by auto
  from 1 2 structure_of_few_lines[OF lines_of_single[of text']] show ?thesis by simp
qed

section \<open>Facts about the extracted fields\<close>

lemma has_label_iff: "has_label l fs \<longleftrightarrow> l \<in> label ` set fs"
  by (auto simp: has_label_def list_ex_iff)

lemma distinct_labels_snoc:
  "distinct_labels fs \<Longrightarrow> \<not> has_label l fs \<Longrightarrow>
   distinct_labels (fs @ [\<lparr>label = l, value' = v, confidence = c\<rparr>])"
  by (simp add: distinct_labels_def has_label_iff)

lemma confident_snoc:
  "confident fs \<Longrightarrow> 75 \<le> c \<Longrightarrow> confident (fs @ [\<lparr>label = l, value' = v, confidence = c\<rparr>])"
  by (simp add: confident_def)

lemma push_unless_labelled_distinct:
  "distinct_labels fs \<Longrightarrow> distinct_labels (push_unless_labelled l v c fs)"
  by (auto simp: push_unless_labelled_def distinct_labels_snoc split: option.splits)

lemma push_unless_labelled_confident:
  "confident fs \<Longrightarrow> 75 \<le> c \<Longrightarrow> confident (push_unless_labelled l v c fs)"
  by (auto simp: push_unless_labelled_def confident_snoc split: option.splits)

lemma extractCardNumber_inv:
  "distinct_labels fs \<Longrightarrow> distinct_labels (extractCardNumber fs st)"
  "confident fs \<Longrightarrow> confident (extractCardNumber fs st)"
  by (auto simp: extractCardNumber_def distinct_labels_snoc confident_snoc split: option.splits)

lemma extractName_inv:
  "distinct_labels fs \<Longrightarrow> distinct_labels (extractName fs st)"
  "confident fs \<Longrightarrow> confident (extractName fs st)"
  by (auto simp: extractName_def distinct_labels_snoc confident_snoc split: option.splits)

lemma extractAddress_inv:
  "distinct_labels fs \<Longrightarrow> distinct_labels (extractAddress fs st)"
  "confident fs \<Longrightarrow> confident (extractAddress fs st)"
  by (auto simp: extractAddress_def Let_def distinct_labels_snoc confident_snoc)

lemma extractLicenseClass_inv:
  "distinct_labels fs \<Longrightarrow> distinct_labels (extractLicenseClass fs st)"
  "confident fs \<Longrightarrow> confident (extractLicenseClass fs st)"
  by (auto simp: extractLicenseClass_def distinct_labels_snoc confident_snoc split: option.splits)

lemma assign_date_inv:
  "distinct_labels fs \<Longrightarrow> distinct_labels (assign_date d fs)"
  "confident fs \<Longrightarrow> confident (assign_date d fs)"
  by (auto simp: assign_date_def distinct_labels_snoc confident_snoc)

lemma fold_assign_date_inv:
  "distinct_labels fs \<Longrightarrow> distinct_labels (fold assign_date ds fs)"
  "confident fs \<Longrightarrow> confident (fold assign_date ds fs)"
  by (induction ds arbitrary: fs) (simp_all add: assign_date_inv)

lemma assign_remaining_inv:
  "distinct_labels fs \<Longrightarrow> distinct_labels (assign_remaining ds fs)"
  "confident fs \<Longrightarrow> confident (assign_remaining ds fs)"
  by (auto simp: assign_remaining_def Let_def distinct_labels_def has_label_iff confident_def)

lemma extractDates_inv:
  "distinct_labels fs \<Longrightarrow> distinct_labels (extractDates fs st)"
  "confident fs \<Longrightarrow> confident (extractDates fs st)"
  by (simp_all add: extractDates_def Let_def assign_remaining_inv fold_assign_date_inv)

lemma extractLicenseFee_inv:
  "distinct_labels fs \<Longrightarrow> distinct_labels (extractLicenseFee fs st)"
  "confident fs \<Longrightarrow> confident (extractLicenseFee fs st)"
  by (auto simp: extractLicenseFee_def distinct_labels_snoc confident_snoc split: option.splits)

lemma validateAndFilterFields_distinct:
  "distinct_labels fs \<Longrightarrow> distinct_labels (validateAndFilterFields fs st)"
  by (simp add: validateAndFilterFields_def distinct_labels_def distinct_map_filter)

lemma validateAndFilterFields_confident: "confident (validateAndFilterFields fs st)"
  by (auto simp: validateAndFilterFields_def confident_def keep_field_def list_all_iff
      split: if_splits)

lemma extractLicenseFields_inv:
  "distinct_labels (extractLicenseFields lines)" "confident (extractLicenseFields lines)"
proof -
  have 0: "distinct_labels []" by (simp add: distinct_labels_def)
  show "distinct_labels (extractLicenseFields lines)"
    unfolding extractLicenseFields_def Let_def
    by (intro validateAndFilterFields_distinct extractLicenseFee_inv(1) extractDates_inv(1)
        extractLicenseClass_inv(1) extractAddress_inv(1) extractName_inv(1)
        extractCardNumber_inv(1) 0)
  show "confident (extractLicenseFields lines)"
    unfolding extractLicenseFields_def Let_def by (rule validateAndFilterFields_confident)
qed

lemma invoice_line_inv:
  "distinct_labels fs \<Longrightarrow> distinct_labels (invoice_line l fs)"
  "confident fs \<Longrightarrow> confident (invoice_line l fs)"
  by (simp_all add: invoice_line_def Let_def push_unless_labelled_distinct
      push_unless_labelled_confident)

lemma extractInvoiceFields_inv:
  "distinct_labels (extractInvoiceFields lines)" "confident (extractInvoiceFields lines)"
proof -
  have d: "distinct_labels fs \<Longrightarrow> distinct_labels (fold invoice_line ls fs)" for ls fs
    by (induction ls arbitrary: fs) (simp_all add: invoice_line_inv)
  have c: "confident fs \<Longrightarrow> confident (fold invoice_line ls fs)" for ls fs
    by (induction ls arbitrary: fs) (simp_all add: invoice_line_inv)
  show "distinct_labels (extractInvoiceFields lines)"
    unfolding extractInvoiceFields_def by (rule d) (simp add: distinct_labels_def)
  show "confident (extractInvoiceFields lines)"
    unfolding extractInvoiceFields_def by (rule c) (simp add: confident_def)
qed

lemma passport_line_inv:
  "distinct_labels fs \<Longrightarrow> distinct_labels (passport_line l fs)"
  "confident fs \<Longrightarrow> confident (passport_line l fs)"
  by (auto simp: passport_line_def Let_def push_unless_labelled_distinct
      push_unless_labelled_confident distinct_labels_snoc confident_snoc split: option.splits)

lemma extractPassportFields_inv:
  "distinct_labels (extractPassportFields lines)" "confident (extractPassportFields lines)"
proof -
  have d: "distinct_labels fs \<Longrightarrow> distinct_labels (fold passport_line ls fs)" for ls fs
    by (induction ls arbitrary: fs) (simp_all add: passport_line_inv)
  have c: "confident fs \<Longrightarrow> confident (fold passport_line ls fs)" for ls fs
    by (induction ls arbitrary: fs) (simp_all add: passport_line_inv)
  show "distinct_labels (extractPassportFields lines)"
    unfolding extractPassportFields_def by (rule d) (simp add: distinct_labels_def)
  show "confident (extractPassportFields lines)"
    unfolding extractPassportFields_def by (rule c) (simp add: confident_def)
qed

lemma extractStandaloneFields_inv:
  "distinct_labels fs \<Longrightarrow> distinct_labels (extractStandaloneFields l fs)"
  "confident fs \<Longrightarrow> confident (extractStandaloneFields l fs)"
  by (simp_all add: extractStandaloneFields_def Let_def push_unless_labelled_distinct
      push_unless_labelled_confident)

text \<open>
  A line of a generic document pushes its label and value without looking at the fields
  collected so far: labels stay distinct on the first line only.
\<close>

lemma generic_line_first: "distinct_labels (generic_line l [])"
  by (auto simp: generic_line_def Let_def distinct_labels_def
      intro!: extractStandaloneFields_inv(1)[unfolded distinct_labels_def] split: option.splits)

lemma generic_line_confident: "confident fs \<Longrightarrow> confident (generic_line l fs)"
  by (auto simp: generic_line_def Let_def confident_snoc
      intro!: extractStandaloneFields_inv(2) split: option.splits)

lemma extractGenericFields_confident: "confident (extractGenericFields lines)"
proof -
  have c: "confident fs \<Longrightarrow> confident (fold generic_line ls fs)" for ls fs
    by (induction ls arbitrary: fs) (simp_all add: generic_line_confident)
  show ?thesis unfolding extractGenericFields_def by (rule c) (simp add: confident_def)
qed

lemma extractFields_distinct_labels: "distinct_labels (extractFields text')"
proof -
  have g: "distinct_labels (extractGenericFields (lines_of text'))"
    using lines_of_single[of text']
    by (auto simp: extractGenericFields_def generic_line_first) (simp add: distinct_labels_def)
  show ?thesis
    unfolding extractFields_def Let_def
    by (simp add: extractLicenseFields_inv extractInvoiceFields_inv extractPassportFields_inv g)
qed

text \<open>
  Claim C7. For every text, no two fields returned by \<^verbatim>\<open>extractFields\<close> have the same
  label and the same value. (They do not even share a label.)
\<close>

theorem extractFields_no_duplicates:
  "distinct (map (\<lambda>f. (label f, value' f)) (extractFields text'))"
proof -
  have "distinct (map label (extractFields text'))"
    using extractFields_distinct_labels[of text'] by (simp add: distinct_labels_def)
  then have "distinct (map (fst \<circ> (\<lambda>f. (label f, value' f))) (extractFields text'))"
    by (simp add: comp_def)
  then show ?thesis by (metis distinct_map map_map)
qed

text \<open>
  Claim C9. Every field that \<^verbatim>\<open>extractFields\<close> returns has a confidence of at least 75,
  whatever its label, so no exception for a label is ever needed; and
  \<^verbatim>\<open>validateAndFilterFields\<close>, the last step of the licence path, keeps no candidate with a
  confidence below 75, for every list of candidates.
\<close>

theorem no_field_below_75:
  "list_all (\<lambda>f. 75 \<le> confidence f) (extractFields text')
   \<and> list_all (\<lambda>f. 75 \<le> confidence f) (validateAndFilterFields candidates structure)
   \<and> list_all (\<lambda>f. confidence f < 75 \<longrightarrow> f \<notin> set (validateAndFilterFields candidates structure))
        candidates"
proof -
  have 1: "confident (extractFields text')"
    unfolding extractFields_def Let_def
    by (simp add: extractLicenseFields_inv extractInvoiceFields_inv extractPassportFields_inv
        extractGenericFields_confident)
  have 2: "confident (validateAndFilterFields candidates structure)"
    by (rule validateAndFilterFields_confident)
  have 3: "list_all (\<lambda>f. confidence f < 75 \<longrightarrow> f \<notin> set (validateAndFilterFields candidates structure))
             candidates"
    using 2 by (auto simp: confident_def list_all_iff)
  from 1 2 3 show ?thesis by (simp add: confident_def)
qed

section \<open>The claims on concrete documents\<close>

subsection \<open>An invoice line\<close>

text \<open>
  \<^verbatim>\<open>extractFields\<close> is called on the text that \<^verbatim>\<open>performOCR\<close> returns, and that text
  has gone through \<^verbatim>\<open>cleanExtractedText\<close>, whichever recognition call it comes from.
\<close>

lemma performOCR_text_cleaned:
  "fst (performOCR first fallback) = Inr r \<Longrightarrow> \<exists>t. ocr_text r = cleanExtractedText t"
  by (auto simp: performOCR_def performFallbackOCR_def Let_def split: sum.splits if_splits)

text \<open>The cleaning of the line: no correction applies to it, and the colon is removed.\<close>

lemma collapse_invoice: "collapse_ws ''Invoice Number: A-1234'' = ''Invoice Number: A-1234''"
  by (simp add: char_eval re_eval cong: rmatch_cong)
















text \<open>
  The second caller of \<^verbatim>\<open>extractFields\<close> puts a page header before the cleaned text of
  each page; the field is the same.
\<close>

lemma lines_invoice_page: "lines_of invoice_page = [''=== Page 1 === Invoice Number A-1234'']"
  by (simp add: invoice_page_def lines_of_def split_lines_def char_eval re_eval
      cong: rmatch_cong)

lemma type_invoice_page:
  "detectDocumentType [''=== Page 1 === Invoice Number A-1234''] = ''invoice''"
  by (simp add: detectDocumentType_def char_eval)

lemma number_invoice_page:
  "map_option (\<lambda>m. cap m 1) (re_exec re_invoice ''=== Page 1 === Invoice Number A-1234'')
   = Some ''A-1234''"
  by (simp add: re_invoice_def invoice_char_def char_eval re_eval cong: rmatch_cong)

lemma total_invoice_page: "re_exec re_total ''=== Page 1 === Invoice Number A-1234'' = None"
  by (simp add: re_total_def char_eval re_eval cong: rmatch_cong)

lemma date_invoice_page:
  "re_exec re_numeric_date ''=== Page 1 === Invoice Number A-1234'' = None"
  by (simp add: re_numeric_date_def date_sep_def char_eval re_eval cong: rmatch_cong)

lemma extractFields_invoice_page:
  "extractFields invoice_page
   = [\<lparr>label = ''Invoice Number'', value' = ''A-1234'', confidence = 90\<rparr>]"
proof -
  obtain m where m: "re_exec re_invoice ''=== Page 1 === Invoice Number A-1234'' = Some m"
    and c: "cap m 1 = ''A-1234''"
    using number_invoice_page by auto
  show ?thesis
    by (simp add: extractFields_def lines_invoice_page type_invoice_page
        extractInvoiceFields_def invoice_line_def m c[unfolded One_nat_def]
        total_invoice_page date_invoice_page push_unless_labelled_def has_label_def)
qed

text \<open>
  The colon matters to the pattern of \<^verbatim>\<open>extractInvoiceFields\<close>, which has no place for
  it: on the line as recognised, with its colon, the pattern gives up the optional word
  and captures \<^verbatim>\<open>Number\<close> itself. The field has the value of the claim because the
  cleaning comes first.
\<close>

lemma lines_invoice: "lines_of ''Invoice Number: A-1234'' = [''Invoice Number: A-1234'']"
  by (simp add: lines_of_def collapse_invoice split_lines_def char_eval)

lemma type_invoice: "detectDocumentType [''Invoice Number: A-1234''] = ''invoice''"
  by (simp add: detectDocumentType_def char_eval)

lemma invoice_number_match:
  "map_option (\<lambda>m. cap m 1) (re_exec re_invoice ''Invoice Number: A-1234'') = Some ''Number''"
  by (simp add: re_invoice_def invoice_char_def char_eval re_eval cong: rmatch_cong)

lemma invoice_total_match: "re_exec re_total ''Invoice Number: A-1234'' = None"
  by (simp add: re_total_def char_eval re_eval cong: rmatch_cong)

lemma invoice_date_match: "re_exec re_numeric_date ''Invoice Number: A-1234'' = None"
  by (simp add: re_numeric_date_def date_sep_def char_eval re_eval cong: rmatch_cong)

lemma extractFields_uncleaned_invoice:
  "extractFields ''Invoice Number: A-1234''
   = [\<lparr>label = ''Invoice Number'', value' = ''Number'', confidence = 90\<rparr>]"
proof -
  obtain m where m: "re_exec re_invoice ''Invoice Number: A-1234'' = Some m"
    and c: "cap m 1 = ''Number''"
    using invoice_number_match by auto
  show ?thesis
    by (simp add: extractFields_def lines_invoice type_invoice extractInvoiceFields_def
        invoice_line_def m c[unfolded One_nat_def] invoice_total_match invoice_date_match
        push_unless_labelled_def has_label_def)
qed

subsection \<open>A licence with the expiry date first\<close>

lemma lines_licence: "lines_of licence_text = [licence_line]"
  by (simp add: licence_text_def licence_line_def lines_of_def split_lines_def char_eval re_eval
      cong: rmatch_cong)

lemma type_licence: "detectDocumentType [licence_line] = ''license''"
  by (simp add: licence_line_def detectDocumentType_def char_eval)

lemma card_licence: "in_card_section licence_line"
  by (simp add: licence_line_def in_card_section_def char_eval)

lemma street_licence: "\<not> re_test re_street_line licence_line"
  by (simp add: licence_line_def re_street_line_def street_suffixes_def letter_or_space_def
      char_eval re_eval cong: rmatch_cong)


lemma nsw_licence: "\<not> re_test re_nsw_line licence_line"
  by (simp add: licence_line_def re_nsw_line_def letter_or_space_def
      char_eval re_eval cong: rmatch_cong)

lemma address_licence: "\<not> in_address_section licence_line"
  by (simp add: in_address_section_def street_licence nsw_licence)

lemma class_licence: "\<not> in_class_section licence_line"
  by (simp add: licence_line_def in_class_section_def re_class_line_def
      char_eval re_eval cong: rmatch_cong)

lemma date_licence: "in_date_section licence_line"
proof -
  have "includes_str (toLowerCase licence_line) ''birth''"
    by (simp add: licence_line_def char_eval)
  then show ?thesis by (simp add: in_date_section_def)
qed

lemma fee_licence: "\<not> in_fee_section licence_line"
  by (simp add: licence_line_def in_fee_section_def re_dollar_def
      char_eval re_eval cong: rmatch_cong)

lemma lower_licence:
  "toLowerCase licence_line = ''licence expiry 19 jan 2029 date of birth 20 aug 1976''"
  by (simp add: licence_line_def char_eval)

lemma structure_licence:
  "analyzeDocumentStructure [licence_line]
   = \<lparr>headerSection = [licence_line], cardSection = [licence_line], addressSection = [],
      classSection = [], dateSection = [licence_line], feeSection = [],
      allText = ''licence expiry 19 jan 2029 date of birth 20 aug 1976'',
      lineContexts = [\<lparr>lc_line = licence_line, lc_context = [], lc_index = 0\<rparr>]\<rparr>"
  by (simp add: analyzeDocumentStructure_def card_licence address_licence class_licence
      date_licence fee_licence lower_licence context_of_def)

lemma first_some_None: "(\<And>x. x \<in> set xs \<Longrightarrow> f x = None) \<Longrightarrow> first_some f xs = None"
  by (induction xs) simp_all

lemma cards_licence: "list_all (\<lambda>p. re_exec p licence_line = None) cardPatterns"
  by (simp add: licence_line_def cardPatterns_def char_eval re_eval cong: rmatch_cong)

lemma no_card_licence:
  "first_some try_card (List.product cardPatterns [licence_line]) = None"
  by (rule first_some_None) (use cards_licence in \<open>auto simp: try_card_def list_all_iff\<close>)

lemma name_match_licence:
  "map_option (\<lambda>m. cap m 1) (re_exec re_name licence_line) = Some ''Licence Expiry''"
  by (simp add: licence_line_def re_name_def cap_word_def char_eval re_eval cong: rmatch_cong)

lemma common_licence: "isCommonWord ''Licence Expiry''"
  by (simp add: isCommonWord_def commonWords_def)

lemma no_name_licence: "try_name licence_line = None"
proof -
  obtain m where "re_exec re_name licence_line = Some m" "cap m 1 = ''Licence Expiry''"
    using name_match_licence by auto
  then show ?thesis by (simp add: try_name_def isValidName_def common_licence)
qed

lemma no_single_class_licence:
  "re_exec re_single_class ''licence expiry 19 jan 2029 date of birth 20 aug 1976'' = None"
  by (simp add: re_single_class_def char_eval re_eval cong: rmatch_cong)

lemma dates_licence: "re_match_all re_date_gi licence_line = [''19 JAN 2029'', ''20 AUG 1976'']"
  by (simp add: licence_line_def re_date_gi_def char_eval re_eval cong: rmatch_cong)

lemma dated_licence:
  "dates_of_line licence_line
   = [\<lparr>date = ''19 JAN 2029'',
        date_context = ''licence expiry 19 jan 2029 date of birth 20 aug 1976''\<rparr>,
      \<lparr>date = ''20 AUG 1976'',
        date_context = ''licence expiry 19 jan 2029 date of birth 20 aug 1976''\<rparr>]"
  by (simp add: dates_of_line_def dates_licence lower_licence) (simp add: char_eval)

lemma context_words_licence:
  "includes_str ''licence expiry 19 jan 2029 date of birth 20 aug 1976'' ''birth''"
  "includes_str ''licence expiry 19 jan 2029 date of birth 20 aug 1976'' ''expir''"
  by simp_all

lemma extractDates_licence:
  "extractDates [] (analyzeDocumentStructure [licence_line])
   = [\<lparr>label = ''Date of Birth'', value' = ''19 JAN 2029'', confidence = 98\<rparr>,
      \<lparr>label = ''Expiry Date'', value' = ''20 AUG 1976'', confidence = 98\<rparr>]"
  by (simp add: extractDates_def structure_licence dated_licence assign_date_def
      assign_remaining_def has_label_def context_words_licence)

lemma extractLicenseFields_licence:
  "extractLicenseFields [licence_line]
   = [\<lparr>label = ''Date of Birth'', value' = ''19 JAN 2029'', confidence = 98\<rparr>,
      \<lparr>label = ''Expiry Date'', value' = ''20 AUG 1976'', confidence = 98\<rparr>]"
proof -
  let ?st = "analyzeDocumentStructure [licence_line]"
  have 1: "extractCardNumber [] ?st = []"
    by (simp add: extractCardNumber_def has_label_def structure_licence no_card_licence)
  have 2: "extractName [] ?st = []"
    by (simp add: extractName_def has_label_def structure_licence no_name_licence)
  have 3: "extractAddress [] ?st = []"
    by (simp add: extractAddress_def has_label_def structure_licence)
  have 4: "extractLicenseClass [] ?st = []"
    by (simp add: extractLicenseClass_def has_label_def structure_licence no_single_class_licence)
  have 6: "extractLicenseFee fs ?st = fs" for fs
    by (simp add: extractLicenseFee_def structure_licence)
  show ?thesis
    unfolding extractLicenseFields_def Let_def 1 2 3 4 6 extractDates_licence
    by (simp add: validateAndFilterFields_def keep_field_def)
qed

text \<open>
  Claim C2 says that a document with the lines \<^verbatim>\<open>Date of Birth 20 AUG 1976\<close> and
  \<^verbatim>\<open>Expiry 19 JAN 2029\<close> gets 20 AUG 1976 as date of birth and 19 JAN 2029 as expiry date
  in either order of the two lines. For the licence whose lines are \<^verbatim>\<open>Licence\<close>,
  \<^verbatim>\<open>Expiry 19 JAN 2029\<close> and \<^verbatim>\<open>Date of Birth 20 AUG 1976\<close>, \<^verbatim>\<open>extractFields\<close> joins the
  three lines into one, whose context mentions both words, and gives the dates in the
  order of the text: 19 JAN 2029 becomes the date of birth.
\<close>

theorem dates_swapped_when_expiry_comes_first:
  "extractFields licence_text
   = [\<lparr>label = ''Date of Birth'', value' = ''19 JAN 2029'', confidence = 98\<rparr>,
      \<lparr>label = ''Expiry Date'', value' = ''20 AUG 1976'', confidence = 98\<rparr>]"
  by (simp add: extractFields_def lines_licence type_licence extractLicenseFields_licence)

text \<open>
  On lines that are kept apart, \<^verbatim>\<open>extractDates\<close> gives each date the role that its own
  line names, in either order of the two lines.
\<close>

lemma dated_expiry: "dates_of_line ''Expiry 19 JAN 2029''
   = [\<lparr>date = ''19 JAN 2029'', date_context = ''expiry 19 jan 2029''\<rparr>]"
  by (simp add: dates_of_line_def re_date_gi_def char_eval re_eval cong: rmatch_cong)

lemma dated_birth: "dates_of_line ''Date of Birth 20 AUG 1976''
   = [\<lparr>date = ''20 AUG 1976'', date_context = ''date of birth 20 aug 1976''\<rparr>]"
  by (simp add: dates_of_line_def re_date_gi_def char_eval re_eval cong: rmatch_cong)

lemma extractDates_separate_lines:
  "dateSection st = [''Date of Birth 20 AUG 1976'', ''Expiry 19 JAN 2029''] \<Longrightarrow>
   extractDates [] st
   = [\<lparr>label = ''Date of Birth'', value' = ''20 AUG 1976'', confidence = 98\<rparr>,
      \<lparr>label = ''Expiry Date'', value' = ''19 JAN 2029'', confidence = 98\<rparr>]"
  "dateSection st = [''Expiry 19 JAN 2029'', ''Date of Birth 20 AUG 1976''] \<Longrightarrow>
   extractDates [] st
   = [\<lparr>label = ''Expiry Date'', value' = ''19 JAN 2029'', confidence = 98\<rparr>,
      \<lparr>label = ''Date of Birth'', value' = ''20 AUG 1976'', confidence = 98\<rparr>]"
  by (simp_all add: extractDates_def dated_expiry dated_birth assign_date_def
      assign_remaining_def has_label_def)

subsection \<open>Instances of the general theorems\<close>

text \<open>The merge of the pages in \<^verbatim>\<open>handleFileSelect\<close> leaves no pair of label and value twice.\<close>

lemma dedup_fields_fresh:
  "f \<in> set (dedup_fields seen fs) \<Longrightarrow> (label f, value' f) \<notin> set seen"
proof (induction fs arbitrary: seen)
  case Nil
  then show ?case by simp
next
  case (Cons a fs)
  show ?case
  proof (cases "(label a, value' a) \<in> set seen")
    case True
    with Cons.prems have "f \<in> set (dedup_fields seen fs)" by simp
    then show ?thesis by (rule Cons.IH)
  next
    case False
    with Cons.prems
    consider "f = a" | "f \<in> set (dedup_fields ((label a, value' a) # seen) fs)" by auto
    then show ?thesis
    proof cases
      case 1
      with False show ?thesis by simp
    next
      case 2
      from Cons.IH[OF 2] show ?thesis by simp
    qed
  qed
qed

lemma dedup_fields_distinct:
  "distinct (map (\<lambda>f. (label f, value' f)) (dedup_fields seen fs))"
proof (induction fs arbitrary: seen)
  case Nil
  then show ?case by simp
next
  case (Cons a fs)
  have "(label a, value' a) \<notin> (\<lambda>f. (label f, value' f)) ` set (dedup_fields ((label a, value' a) # seen) fs)"
    using dedup_fields_fresh[of _ "(label a, value' a) # seen" fs] by fastforce
  with Cons.IH show ?case by simp
qed

theorem detectDocumentType_priority_witness:
  "mentions licence_keywords [''Driver Licence'', ''Invoice total'']
   \<and> mentions invoice_keywords [''Driver Licence'', ''Invoice total'']
   \<and> detectDocumentType [''Driver Licence'', ''Invoice total''] = ''license''"
  using detectDocumentType_priority[of "[''Driver Licence'', ''Invoice total'']"]
  by (simp add: mentions_def licence_keywords_def invoice_keywords_def char_eval)

theorem extractFields_no_duplicates_witness:
  "extractFields ''Invoice Number: A-1234'' \<noteq> []
   \<and> distinct (map (\<lambda>f. (label f, value' f)) (extractFields ''Invoice Number: A-1234''))"
  using extractFields_no_duplicates[of "''Invoice Number: A-1234''"]
  by (simp add: extractFields_uncleaned_invoice)

theorem no_field_below_75_witness:
  "list_all (\<lambda>f. 75 \<le> confidence f) (extractFields ''Invoice Number: A-1234'')
   \<and> validateAndFilterFields
        [\<lparr>label = ''Name'', value' = ''Jo Li'', confidence = 60\<rparr>,
         \<lparr>label = ''Note'', value' = ''x'', confidence = 80\<rparr>]
        (analyzeDocumentStructure [])
      = [\<lparr>label = ''Note'', value' = ''x'', confidence = 80\<rparr>]"
  using no_field_below_75[of "''Invoice Number: A-1234''"
      "[\<lparr>label = ''Name'', value' = ''Jo Li'', confidence = 60\<rparr>,
        \<lparr>label = ''Note'', value' = ''x'', confidence = 80\<rparr>]" "analyzeDocumentStructure []"]
  by (simp add: validateAndFilterFields_def keep_field_def)

theorem at_most_one_line_witness:
  "lines_of licence_text = [licence_line]
   \<and> length (lines_of licence_text) \<le> 1
   \<and> cardSection (analyzeDocumentStructure (lines_of licence_text)) = lines_of licence_text
   \<and> addressSection (analyzeDocumentStructure (lines_of licence_text)) = []
   \<and> list_all (\<lambda>lc. lc_context lc = [])
         (lineContexts (analyzeDocumentStructure (lines_of licence_text)))"
  using at_most_one_line[of licence_text]
  by (simp add: lines_licence structure_licence)

end
